theory Spec2Isabelle
  imports Main
begin

section \<open>Values, notes and files\<close>

text \<open>
  Frontmatter values are the values YAML yields in JavaScript. A property that is absent
  reads as \<open>undefined\<close>; here a frontmatter is a map and an absent key is \<open>None\<close>.
  The source tests such values for truthiness (\<open>fm.recurrenceRule || fm.recurrence\<close>,
  \<open>fm.status || null\<close>), so truthiness is part of the model. Numbers are integers.
\<close>

datatype jsval = JNull | JBool bool | JNum int | JStr string | JArr "jsval list"

fun truthy :: "jsval \<Rightarrow> bool" where
  "truthy JNull = False"
| "truthy (JBool b) = b"
| "truthy (JNum n) = (n \<noteq> 0)"
| "truthy (JStr s) = (s \<noteq> [])"
| "truthy (JArr xs) = True"

text \<open>Truthiness of a property read: \<open>undefined\<close> is falsy.\<close>

definition truthy_prop :: "jsval option \<Rightarrow> bool" where
  "truthy_prop v = (case v of None \<Rightarrow> False | Some x \<Rightarrow> truthy x)"

text \<open>The JavaScript \<open>a || b\<close> on two property reads.\<close>

definition js_or :: "jsval option \<Rightarrow> jsval option \<Rightarrow> jsval option" where
  "js_or a b = (if truthy_prop a then a else b)"

type_synonym fm = "string \<rightharpoonup> jsval"

text \<open>
  A note is held in structured form: its frontmatter block and the text after it. The
  raw content the host reads and writes is this pair; a frontmatter patch
  (\<open>processFrontMatter\<close>) changes the first component only.
\<close>

record mdnote =
  frontmatter :: fm
  body :: string

text \<open>The fields of the host's \<open>TFile\<close> that the code reads; \<open>parent\<close> is the folder path.\<close>

record tfile =
  path :: string
  basename :: string
  extension :: string
  parent :: "string option"

record settings =
  enableRecurrence :: bool
  promptOnRecurrenceEdit :: bool
  recurrencePromptTimeout :: int
  recurrenceCompletionStatuses :: "string list option"
  recurrenceDefaultStatus :: string
  checkOpenChecklistItems :: bool

datatype choice = UpdateAll | Split | Cancel

datatype level = LogLevel | WarnLevel | ErrorLevel

section \<open>The state the plugin acts on\<close>

text \<open>
  \<open>vault\<close> is the file store, \<open>cache\<close> the host's metadata index (what
  \<open>metadataCache.getFileCache(file)?.frontmatter\<close> returns; it may lag behind the vault).
  \<open>modifiedFiles\<close> and \<open>sessionDuration\<close> are the two fields of \<open>SessionTracker\<close>,
  \<open>clock\<close> is what \<open>Date.now()\<close> returns (milliseconds), \<open>loggingEnabled\<close> the logger
  module's flag. \<open>console\<close>, \<open>notices\<close> and \<open>shown\<close> record what was written to the
  console, shown as a notice, and the recurrence prompts opened (change type and path);
  \<open>checklistShown\<close> counts the checklist prompts opened and \<open>opened\<close> lists the files
  opened in a leaf.
\<close>

record world =
  vault :: "string \<rightharpoonup> mdnote"
  cache :: "string \<rightharpoonup> fm"
  modifiedFiles :: "string \<rightharpoonup> int"
  sessionDuration :: int
  clock :: int
  loggingEnabled :: bool
  console :: "(level \<times> string) list"
  notices :: "string list"
  shown :: "(string \<times> string) list"
  checklistShown :: nat
  opened :: "string list"

section \<open>The logger module\<close>

definition logger_warn :: "string \<Rightarrow> world \<Rightarrow> world" where
  "logger_warn message w =
     (if \<not> loggingEnabled w then w
      else w\<lparr>console := console w @ [(WarnLevel, message)]\<rparr>)"

definition logger_error :: "string \<Rightarrow> world \<Rightarrow> world" where
  "logger_error message w =
     (if \<not> loggingEnabled w then w
      else w\<lparr>console := console w @ [(ErrorLevel, message)]\<rparr>)"

definition Notice :: "string \<Rightarrow> world \<Rightarrow> world" where
  "Notice msg w = w\<lparr>notices := notices w @ [msg]\<rparr>"

section \<open>SessionTracker\<close>

text \<open>\<open>durationMinutes * 60 * 1000\<close>, in the constructor and in \<open>updateDuration\<close>.\<close>

definition updateDuration :: "int \<Rightarrow> world \<Rightarrow> world" where
  "updateDuration durationMinutes w = w\<lparr>sessionDuration := durationMinutes * 60 * 1000\<rparr>"

definition markAsModified :: "string \<Rightarrow> world \<Rightarrow> world" where
  "markAsModified filePath w = w\<lparr>modifiedFiles := (modifiedFiles w)(filePath \<mapsto> clock w)\<rparr>"

text \<open>
  \<open>if (!lastModified) return false\<close> is taken both by a missing entry and by the
  stored number 0; the expired entry is deleted before \<open>false\<close> is returned.
\<close>

definition wasRecentlyModified :: "string \<Rightarrow> world \<Rightarrow> bool \<times> world" where
  "wasRecentlyModified filePath w =
     (case modifiedFiles w filePath of
        None \<Rightarrow> (False, w)
      | Some lastModified \<Rightarrow>
          if lastModified = 0 then (False, w)
          else let elapsed = clock w - lastModified in
            if elapsed > sessionDuration w
            then (False, w\<lparr>modifiedFiles := (modifiedFiles w)(filePath := None)\<rparr>)
            else (True, w))"

definition clear :: "world \<Rightarrow> world" where
  "clear w = w\<lparr>modifiedFiles := Map.empty\<rparr>"

section \<open>The host and the libraries\<close>

text \<open>
  The host application (file store, metadata index, dialogs) and the two libraries the
  code calls (the recurrence-rule evaluator and the date formatter) are parameters.
  \<^item> \<open>user_answer n\<close> is the user's choice on the \<open>n\<close>-th recurrence prompt opened,
    \<open>checklist_answer n\<close> the button pressed on the \<open>n\<close>-th checklist prompt, or
    \<open>None\<close> when that dialog is closed without a button.
  \<^item> \<open>fails op p\<close> says that the host operation \<open>op\<close> on path \<open>p\<close> rejects; for
    \<open>OpResolve\<close>, that \<open>getAbstractFileByPath\<close> yields no \<open>TFile\<close>.
  \<^item> \<open>autoIndex\<close> says whether the metadata index follows a write at once; otherwise
    the index keeps what it held.
  \<^item> \<open>RRule_parseString\<close> is \<open>RRule.parseString\<close>; \<open>RRule_after opts d inc\<close> is
    \<open>new RRule(opts).after(d, inc)\<close>; both may throw.
  \<^item> \<open>new_Date\<close> is \<open>new Date(value)\<close>, which may be an invalid date;
    \<open>moment_format f d\<close> is \<open>window.moment(d).format(f)\<close>.
  \<^item> \<open>open_items\<close> and \<open>tick_items\<close> are the regular expressions of
    \<open>scanChecklistItems\<close> and \<open>updateChecklistItems\<close> as the JavaScript engine applies
    them to the raw text of a file, which is the whole note: the lines of the frontmatter
    block are scanned and rewritten like the lines after it. \<open>open_items c\<close> is the list
    of captures collected from the lines of \<open>c\<close>; \<open>tick_items r c\<close> is
    \<open>c.replace(/^(\\s*-\\s*)\\[ \\]/gm, r)\<close>.
\<close>

text \<open>The four buttons of \<open>ChecklistPromptModal\<close>.\<close>

datatype checklist_button = OpenNote | CompleteItems | MarkQuestion | IgnoreItems

datatype hostop = OpExists | OpRead | OpCreate | OpResolve | OpPatch | OpModify | OpOpen

datatype error = IOError | EvalError

datatype jsdate = Valid int | InvalidDate

record rrule_options =
  dtstart :: "jsdate option"
  parts :: "(string \<times> string) list"

record host =
  user_answer :: "nat \<Rightarrow> choice"
  checklist_answer :: "nat \<Rightarrow> checklist_button option"
  fails :: "hostop \<Rightarrow> string \<Rightarrow> bool"
  autoIndex :: bool
  RRule_parseString :: "jsval \<Rightarrow> error + rrule_options"
  RRule_after :: "rrule_options \<Rightarrow> jsdate \<Rightarrow> bool \<Rightarrow> error + int option"
  new_Date :: "jsval \<Rightarrow> jsdate"
  moment_format :: "string \<Rightarrow> int \<Rightarrow> string"
  open_items :: "mdnote \<Rightarrow> string list"
  tick_items :: "string \<Rightarrow> mdnote \<Rightarrow> mdnote"

text \<open>A function of the source either returns a value or throws (its promise rejects).\<close>

datatype 'a completion = Returns 'a | Throws error

definition reindex :: "host \<Rightarrow> string \<Rightarrow> world \<Rightarrow> world" where
  "reindex h p w =
     (if autoIndex h then w\<lparr>cache := (cache w)(p := map_option frontmatter (vault w p))\<rparr>
      else w)"

text \<open>\<open>app.fileManager.processFrontMatter(file, fn)\<close>: a scoped patch of one note.\<close>

definition processFrontMatter :: "host \<Rightarrow> string \<Rightarrow> (fm \<Rightarrow> fm) \<Rightarrow> world \<Rightarrow> error + world" where
  "processFrontMatter h p fn w =
     (case vault w p of
        None \<Rightarrow> Inl IOError
      | Some n \<Rightarrow>
          if fails h OpPatch p then Inl IOError
          else Inr (reindex h p
                 (w\<lparr>vault := (vault w)(p \<mapsto> n\<lparr>frontmatter := fn (frontmatter n)\<rparr>)\<rparr>)))"

definition adapter_exists :: "host \<Rightarrow> string \<Rightarrow> world \<Rightarrow> error + bool" where
  "adapter_exists h p w = (if fails h OpExists p then Inl IOError else Inr (vault w p \<noteq> None))"

definition vault_read :: "host \<Rightarrow> string \<Rightarrow> world \<Rightarrow> error + mdnote" where
  "vault_read h p w =
     (case vault w p of
        None \<Rightarrow> Inl IOError
      | Some n \<Rightarrow> if fails h OpRead p then Inl IOError else Inr n)"

definition vault_create :: "host \<Rightarrow> string \<Rightarrow> mdnote \<Rightarrow> world \<Rightarrow> error + world" where
  "vault_create h p content w =
     (if fails h OpCreate p \<or> vault w p \<noteq> None then Inl IOError
      else Inr (reindex h p (w\<lparr>vault := (vault w)(p \<mapsto> content)\<rparr>)))"

definition vault_modify :: "host \<Rightarrow> string \<Rightarrow> mdnote \<Rightarrow> world \<Rightarrow> error + world" where
  "vault_modify h p content w =
     (if fails h OpModify p \<or> vault w p = None then Inl IOError
      else Inr (reindex h p (w\<lparr>vault := (vault w)(p \<mapsto> content)\<rparr>)))"

text \<open>\<open>getAbstractFileByPath(p) instanceof TFile\<close>.\<close>

definition isTFile :: "host \<Rightarrow> string \<Rightarrow> world \<Rightarrow> bool" where
  "isTFile h p w = (\<not> fails h OpResolve p \<and> vault w p \<noteq> None)"

text \<open>The recurrence prompt (\<open>RecurrenceUpdateModal\<close>): opened, then resolved by the user.\<close>

definition promptUser :: "host \<Rightarrow> string \<Rightarrow> tfile \<Rightarrow> world \<Rightarrow> choice \<times> world" where
  "promptUser h changeType file w =
     (user_answer h (length (shown w)), w\<lparr>shown := shown w @ [(changeType, path file)]\<rparr>)"

section \<open>RecurrenceService.markFileAsModified\<close>

definition markFileAsModified :: "string \<Rightarrow> world \<Rightarrow> world" where
  "markFileAsModified filePath w = markAsModified filePath w"

section \<open>BulkEditService: applyToFiles\<close>

text \<open>\<open>String.prototype.toLowerCase\<close> on the ASCII letters (enough to compare with \<open>md\<close>).\<close>

definition toLowerCase :: "string \<Rightarrow> string" where
  "toLowerCase s =
     map (\<lambda>c. case map_of (zip ''ABCDEFGHIJKLMNOPQRSTUVWXYZ'' ''abcdefghijklmnopqrstuvwxyz'') c of
                 None \<Rightarrow> c
               | Some l \<Rightarrow> l) s"

text \<open>
  The loop of \<open>applyToFiles\<close> with its counter. A file that is not markdown is skipped;
  the path is marked before the patch is attempted, and a patch that throws is caught
  and logged inside the loop. (The delayed menu refresh is display only.)
\<close>

fun applyToFiles_loop ::
  "host \<Rightarrow> tfile list \<Rightarrow> (fm \<Rightarrow> tfile \<Rightarrow> fm) \<Rightarrow> nat \<Rightarrow> world \<Rightarrow> nat \<times> world" where
  "applyToFiles_loop h [] callback count w = (count, w)"
| "applyToFiles_loop h (file # files) callback count w =
     (if toLowerCase (extension file) \<noteq> ''md'' then applyToFiles_loop h files callback count w
      else
        let w1 = markFileAsModified (path file) w in
        case processFrontMatter h (path file) (\<lambda>fm. callback fm file) w1 of
          Inl e \<Rightarrow>
            applyToFiles_loop h files callback count
              (logger_error (''[TPS GCM] Failed to update '' @ path file @ '':'') w1)
        | Inr w2 \<Rightarrow> applyToFiles_loop h files callback (count + 1) w2)"

definition applyToFiles ::
  "host \<Rightarrow> tfile list \<Rightarrow> (fm \<Rightarrow> tfile \<Rightarrow> fm) \<Rightarrow> world \<Rightarrow> nat \<times> world" where
  "applyToFiles h files callback w = applyToFiles_loop h files callback 0 w"

section \<open>BulkEditService: the next occurrence and the successor\<close>

text \<open>The body of the \<open>try\<close> block of \<open>getNextOccurrence\<close>.\<close>

definition getNextOccurrence_try :: "host \<Rightarrow> jsval \<Rightarrow> jsval option \<Rightarrow> world \<Rightarrow> error + int option" where
  "getNextOccurrence_try h recurrenceRule currentDate w =
     (let startDate =
            (case currentDate of
               None \<Rightarrow> Valid (clock w)
             | Some v \<Rightarrow> if truthy v then new_Date h v else Valid (clock w))
      in case RRule_parseString h recurrenceRule of
           Inl e \<Rightarrow> Inl e
         | Inr options \<Rightarrow>
             RRule_after h (options\<lparr>dtstart := Some startDate\<rparr>) startDate False)"

definition getNextOccurrence :: "host \<Rightarrow> jsval \<Rightarrow> jsval option \<Rightarrow> world \<Rightarrow> int option \<times> world" where
  "getNextOccurrence h recurrenceRule currentDate w =
     (case getNextOccurrence_try h recurrenceRule currentDate w of
        Inl e \<Rightarrow> (None, logger_error ''[TPS GCM] Failed to calculate next recurrence:'' w)
      | Inr nextDate \<Rightarrow> (nextDate, w))"

definition clearRecurrenceRule :: "host \<Rightarrow> tfile \<Rightarrow> world \<Rightarrow> error + world" where
  "clearRecurrenceRule h file w =
     processFrontMatter h (path file)
       (\<lambda>fm. fm(''recurrenceRule'' := None, ''recurrence'' := None)) w"

text \<open>
  \<open>basename.replace(/ \\d{4}-\\d{2}-\\d{2}$/, '')\<close>: a trailing blank and date of eleven
  characters is removed, anything else is kept.
\<close>

definition isDigit :: "char \<Rightarrow> bool" where
  "isDigit c = (c \<in> set ''0123456789'')"

definition isDateSuffix :: "string \<Rightarrow> bool" where
  "isDateSuffix s =
     (case s of
        [b, y1, y2, y3, y4, d1, m1, m2, d2, a1, a2] \<Rightarrow>
          b = CHR '' '' \<and> isDigit y1 \<and> isDigit y2 \<and> isDigit y3 \<and> isDigit y4 \<and>
          d1 = CHR ''-'' \<and> isDigit m1 \<and> isDigit m2 \<and> d2 = CHR ''-'' \<and> isDigit a1 \<and> isDigit a2
      | _ \<Rightarrow> False)"

definition stripDateSuffix :: "string \<Rightarrow> string" where
  "stripDateSuffix name =
     (if 11 \<le> length name \<and> isDateSuffix (drop (length name - 11) name)
      then take (length name - 11) name else name)"

text \<open>The \<open>catch\<close> block of \<open>createNextRecurrenceInstance\<close>.\<close>

definition createNext_catch :: "world \<Rightarrow> bool \<times> world" where
  "createNext_catch w =
     (False, Notice ''Failed to create next recurrence instance''
               (logger_error ''[TPS GCM] Failed to create next recurrence instance:'' w))"

definition newFilePathOf :: "tfile \<Rightarrow> string \<Rightarrow> string" where
  "newFilePathOf file newFileName =
     (case parent file of Some folder \<Rightarrow> folder @ ''/'' @ newFileName | None \<Rightarrow> newFileName)"

text \<open>
  The steps of \<open>createNextRecurrenceInstance\<close> after the target path was found free:
  read the source, create the copy, patch the three fields of the copy, clear the rule
  of the source. Any step that throws ends in the \<open>catch\<close> block.
\<close>

definition createNext_spawn ::
  "host \<Rightarrow> settings \<Rightarrow> tfile \<Rightarrow> int \<Rightarrow> string \<Rightarrow> string \<Rightarrow> string \<Rightarrow> world \<Rightarrow> bool \<times> world" where
  "createNext_spawn h cfg file nextDate baseName newFileName newFilePath w1 =
     (case vault_read h (path file) w1 of
        Inl e \<Rightarrow> createNext_catch w1
      | Inr content \<Rightarrow>
          (case vault_create h newFilePath content w1 of
             Inl e \<Rightarrow> createNext_catch w1
           | Inr w2 \<Rightarrow>
               if \<not> isTFile h newFilePath w2
               then (False, logger_error ''[TPS GCM] Could not get newly created file'' w2)
               else
                 let newScheduled = moment_format h ''YYYY-MM-DDTHH:mm:ss'' nextDate;
                     newStatus = (if recurrenceDefaultStatus cfg \<noteq> []
                                  then recurrenceDefaultStatus cfg else ''open'')
                 in case processFrontMatter h newFilePath
                           (\<lambda>fm. fm(''scheduled'' \<mapsto> JStr newScheduled,
                                     ''title'' \<mapsto> JStr baseName,
                                     ''status'' \<mapsto> JStr newStatus)) w2 of
                      Inl e \<Rightarrow> createNext_catch w2
                    | Inr w3 \<Rightarrow>
                        (case clearRecurrenceRule h file w3 of
                           Inl e \<Rightarrow> createNext_catch w3
                         | Inr w4 \<Rightarrow>
                             (True, Notice (''Created next recurrence: '' @ newFileName) w4))))"

text \<open>The two early exits that clear the rule of the source and report \<open>true\<close>.\<close>

definition createNext_clear :: "host \<Rightarrow> tfile \<Rightarrow> string \<Rightarrow> world \<Rightarrow> bool \<times> world" where
  "createNext_clear h file message w1 =
     (let w2 = logger_warn message w1
      in case clearRecurrenceRule h file w2 of
           Inl e \<Rightarrow> createNext_catch w2
         | Inr w3 \<Rightarrow> (True, w3))"

definition createNextRecurrenceInstance ::
  "host \<Rightarrow> settings \<Rightarrow> tfile \<Rightarrow> fm \<Rightarrow> jsval option \<Rightarrow> world \<Rightarrow> bool \<times> world" where
  "createNextRecurrenceInstance h cfg file fmatter carryStatus w =
     (case js_or (fmatter ''recurrenceRule'') (fmatter ''recurrence'') of
        None \<Rightarrow> (False, w)
      | Some recurrenceRule \<Rightarrow>
          if \<not> truthy recurrenceRule then (False, w)
          else
            let currentScheduled = fmatter ''scheduled'';
                (nextDate, w1) = getNextOccurrence h recurrenceRule currentScheduled w
            in case nextDate of
                 None \<Rightarrow>
                   createNext_clear h file
                     ''[TPS GCM] Could not calculate next recurrence date'' w1
               | Some d \<Rightarrow>
                   (let baseName = stripDateSuffix (basename file);
                        dateStr = moment_format h ''YYYY-MM-DD'' d;
                        newFileName = baseName @ '' '' @ dateStr @ ''.md'';
                        newFilePath = newFilePathOf file newFileName
                    in case adapter_exists h newFilePath w1 of
                         Inl e \<Rightarrow> createNext_catch w1
                       | Inr True \<Rightarrow>
                           createNext_clear h file
                             (''[TPS GCM] Next recurrence already exists, skipping creation: ''
                                @ newFilePath) w1
                       | Inr False \<Rightarrow>
                           createNext_spawn h cfg file d baseName newFileName newFilePath w1))"

section \<open>RecurrenceService: prompts and split\<close>

text \<open>
  \<open>updateFrontmatter\<close>, \<open>promptForFrontmatterChange\<close> and \<open>splitInstance\<close> call each
  other: a split ends with a frontmatter update of the split file, which may prompt
  again. The functions below take the callee of the cycle as a parameter; the knot is
  tied further down by a counter that bounds how deeply splits nest.
\<close>

type_synonym splitter = "tfile \<Rightarrow> world \<Rightarrow> world option"

type_synonym updater = "tfile list \<Rightarrow> (string \<times> jsval) list \<Rightarrow> world \<Rightarrow> (nat \<times> world) option"

definition hasRule :: "fm \<Rightarrow> bool" where
  "hasRule fmatter = (truthy_prop (fmatter ''recurrenceRule'') \<or> truthy_prop (fmatter ''recurrence''))"

text \<open>\<open>fm.status === 'complete' || fm.status === 'wont-do'\<close>.\<close>

definition statusDone :: "fm \<Rightarrow> bool" where
  "statusDone fmatter =
     (fmatter ''status'' = Some (JStr ''complete'') \<or> fmatter ''status'' = Some (JStr ''wont-do''))"

definition promptForFrontmatterChange_with ::
  "splitter \<Rightarrow> host \<Rightarrow> tfile \<Rightarrow> string \<Rightarrow> world \<Rightarrow> (choice \<times> world) option" where
  "promptForFrontmatterChange_with split h file changeDescription w =
     (let (recent, w1) = wasRecentlyModified (path file) w in
      if recent then Some (UpdateAll, w1)
      else
        let (result, w2) = promptUser h changeDescription file w1 in
        case result of
          UpdateAll \<Rightarrow> Some (UpdateAll, markAsModified (path file) w2)
        | Split \<Rightarrow>
            (case split file w2 of
               None \<Rightarrow> None
             | Some w3 \<Rightarrow> Some (Split, markAsModified (path file) w3))
        | Cancel \<Rightarrow> Some (Cancel, w2))"

definition promptForContentChange_with :: "splitter \<Rightarrow> host \<Rightarrow> tfile \<Rightarrow> world \<Rightarrow> world option" where
  "promptForContentChange_with split h file w =
     (let (result, w1) = promptUser h ''editing'' file w in
      case result of
        UpdateAll \<Rightarrow> Some (markAsModified (path file) w1)
      | Split \<Rightarrow>
          (case split file w1 of
             None \<Rightarrow> None
           | Some w2 \<Rightarrow> Some (markAsModified (path file) w2))
      | Cancel \<Rightarrow> Some (markAsModified (path file) w1))"

definition promptOnFocus_with :: "splitter \<Rightarrow> host \<Rightarrow> tfile \<Rightarrow> world \<Rightarrow> world option" where
  "promptOnFocus_with split h file w =
     (let (result, w1) = promptUser h ''focus'' file w in
      case result of
        UpdateAll \<Rightarrow> Some (markAsModified (path file) w1)
      | Split \<Rightarrow>
          (case split file w1 of
             None \<Rightarrow> None
           | Some w2 \<Rightarrow> Some (markAsModified (path file) w2))
      | Cancel \<Rightarrow> Some (markAsModified (path file) w1))"

definition handleFileFocus_with :: "splitter \<Rightarrow> host \<Rightarrow> tfile \<Rightarrow> world \<Rightarrow> world option" where
  "handleFileFocus_with split h file w =
     (let (recent, w1) = wasRecentlyModified (path file) w in
      if recent then Some w1
      else case cache w1 (path file) of
             None \<Rightarrow> Some w1
           | Some fmatter \<Rightarrow>
               if \<not> hasRule fmatter then Some w1
               else if statusDone fmatter then Some w1
               else promptOnFocus_with split h file w1)"

definition handleFileModification_with :: "splitter \<Rightarrow> host \<Rightarrow> tfile \<Rightarrow> world \<Rightarrow> world option" where
  "handleFileModification_with split h file w =
     (let (recent, w1) = wasRecentlyModified (path file) w in
      if recent then Some w1
      else case cache w1 (path file) of
             None \<Rightarrow> Some w1
           | Some fmatter \<Rightarrow>
               if \<not> hasRule fmatter then Some w1
               else if statusDone fmatter then Some w1
               else promptForContentChange_with split h file w1)"

definition splitInstance_with :: "updater \<Rightarrow> host \<Rightarrow> settings \<Rightarrow> tfile \<Rightarrow> world \<Rightarrow> world option" where
  "splitInstance_with update h cfg file w =
     (case cache w (path file) of
        None \<Rightarrow> Some w
      | Some fmatter \<Rightarrow>
          let (handled, w1) = createNextRecurrenceInstance h cfg file fmatter None w in
          case update [file] [(''recurrenceRule'', JNull), (''recurrence'', JNull)] w1 of
            None \<Rightarrow> None
          | Some (n, w2) \<Rightarrow> Some (Notice ''Split recurring event. Next instance created.'' w2))"

section \<open>BulkEditService: updateFrontmatter, addTag, removeTag\<close>

text \<open>\<open>String.prototype.includes\<close>.\<close>

fun includes_str :: "string \<Rightarrow> string \<Rightarrow> bool" where
  "includes_str [] sub = (sub = [])"
| "includes_str (c # cs) sub = (take (length sub) (c # cs) = sub \<or> includes_str cs sub)"

definition changeDescOf :: "string list \<Rightarrow> string" where
  "changeDescOf changeKeys =
     (if ''scheduled'' \<in> set changeKeys then ''changing the scheduled time of''
      else if ''priority'' \<in> set changeKeys then ''changing the priority of''
      else if list_ex (\<lambda>k. includes_str k ''tag'') changeKeys then ''modifying tags on''
      else ''updating'')"

text \<open>
  The prompting loop at the head of \<open>updateFrontmatter\<close>. The result \<open>True\<close> stands for
  the \<open>return 0\<close> taken on cancel.
\<close>

fun updateFrontmatter_prompts ::
  "splitter \<Rightarrow> host \<Rightarrow> (string \<times> jsval) list \<Rightarrow> tfile list \<Rightarrow> world \<Rightarrow> (bool \<times> world) option" where
  "updateFrontmatter_prompts split h updates [] w = Some (False, w)"
| "updateFrontmatter_prompts split h updates (file # files) w =
     (case cache w (path file) of
        None \<Rightarrow> updateFrontmatter_prompts split h updates files w
      | Some fmatter \<Rightarrow>
          if \<not> hasRule fmatter then updateFrontmatter_prompts split h updates files w
          else if statusDone fmatter then updateFrontmatter_prompts split h updates files w
          else
            let changeKeys = map fst updates in
            if ''status'' \<in> set changeKeys then updateFrontmatter_prompts split h updates files w
            else
              case promptForFrontmatterChange_with split h file (changeDescOf changeKeys) w of
                None \<Rightarrow> None
              | Some (result, w1) \<Rightarrow>
                  if result = Cancel then Some (True, w1)
                  else updateFrontmatter_prompts split h updates files w1)"

text \<open>The callback of \<open>updateFrontmatter\<close>: a \<open>null\<close> value deletes the key.\<close>

fun applyUpdates :: "(string \<times> jsval) list \<Rightarrow> fm \<Rightarrow> fm" where
  "applyUpdates [] fmatter = fmatter"
| "applyUpdates ((key, v) # updates) fmatter =
     applyUpdates updates (if v = JNull then fmatter(key := None) else fmatter(key \<mapsto> v))"

definition updateFrontmatter_with ::
  "splitter \<Rightarrow> host \<Rightarrow> settings \<Rightarrow> tfile list \<Rightarrow> (string \<times> jsval) list \<Rightarrow> world \<Rightarrow> (nat \<times> world) option" where
  "updateFrontmatter_with split h cfg files updates w =
     (if enableRecurrence cfg \<and> promptOnRecurrenceEdit cfg then
        case updateFrontmatter_prompts split h updates files w of
          None \<Rightarrow> None
        | Some (cancelled, w1) \<Rightarrow>
            if cancelled then Some (0, w1)
            else Some (applyToFiles h files (\<lambda>fmatter file. applyUpdates updates fmatter) w1)
      else Some (applyToFiles h files (\<lambda>fmatter file. applyUpdates updates fmatter) w))"

text \<open>
  The prompting loop of \<open>addTag\<close> and \<open>removeTag\<close>: it prompts for the first file that
  qualifies and then leaves the loop (\<open>break\<close>); \<open>True\<close> stands for \<open>return 0\<close>.
\<close>

fun tag_prompts ::
  "splitter \<Rightarrow> host \<Rightarrow> string \<Rightarrow> tfile list \<Rightarrow> world \<Rightarrow> (bool \<times> world) option" where
  "tag_prompts split h changeDescription [] w = Some (False, w)"
| "tag_prompts split h changeDescription (file # files) w =
     (case cache w (path file) of
        None \<Rightarrow> tag_prompts split h changeDescription files w
      | Some fmatter \<Rightarrow>
          if hasRule fmatter \<and> fmatter ''status'' \<noteq> Some (JStr ''complete'')
               \<and> fmatter ''status'' \<noteq> Some (JStr ''wont-do'')
          then
            case promptForFrontmatterChange_with split h file changeDescription w of
              None \<Rightarrow> None
            | Some (result, w1) \<Rightarrow> Some (result = Cancel, w1)
          else tag_prompts split h changeDescription files w)"

definition addTag_callback :: "string \<Rightarrow> string \<Rightarrow> fm \<Rightarrow> fm" where
  "addTag_callback tag key fmatter =
     (let tags0 = (case fmatter key of None \<Rightarrow> JArr [] | Some v \<Rightarrow> if truthy v then v else JArr []);
          tags = (case tags0 of JArr xs \<Rightarrow> xs | v \<Rightarrow> filter truthy [v])
      in if JStr tag \<notin> set tags then fmatter(key \<mapsto> JArr (tags @ [JStr tag])) else fmatter)"

definition removeTag_callback :: "string \<Rightarrow> string \<Rightarrow> fm \<Rightarrow> fm" where
  "removeTag_callback tag key fmatter =
     (case fmatter key of
        None \<Rightarrow> fmatter
      | Some v \<Rightarrow>
          if \<not> truthy v then fmatter
          else let tags = (case v of JArr xs \<Rightarrow> xs | _ \<Rightarrow> [v])
               in fmatter(key \<mapsto> JArr (filter (\<lambda>t. t \<noteq> JStr tag) tags)))"

definition addTag_with ::
  "splitter \<Rightarrow> host \<Rightarrow> settings \<Rightarrow> tfile list \<Rightarrow> string \<Rightarrow> string \<Rightarrow> world \<Rightarrow> (nat \<times> world) option" where
  "addTag_with split h cfg files tag key w =
     (if enableRecurrence cfg \<and> promptOnRecurrenceEdit cfg then
        case tag_prompts split h (''adding tag \"'' @ tag @ ''\" to'') files w of
          None \<Rightarrow> None
        | Some (cancelled, w1) \<Rightarrow>
            if cancelled then Some (0, w1)
            else Some (applyToFiles h files (\<lambda>fmatter file. addTag_callback tag key fmatter) w1)
      else Some (applyToFiles h files (\<lambda>fmatter file. addTag_callback tag key fmatter) w))"

definition removeTag_with ::
  "splitter \<Rightarrow> host \<Rightarrow> settings \<Rightarrow> tfile list \<Rightarrow> string \<Rightarrow> string \<Rightarrow> world \<Rightarrow> (nat \<times> world) option" where
  "removeTag_with split h cfg files tag key w =
     (if enableRecurrence cfg \<and> promptOnRecurrenceEdit cfg then
        case tag_prompts split h (''removing tag \"'' @ tag @ ''\" from'') files w of
          None \<Rightarrow> None
        | Some (cancelled, w1) \<Rightarrow>
            if cancelled then Some (0, w1)
            else Some (applyToFiles h files (\<lambda>fmatter file. removeTag_callback tag key fmatter) w1)
      else Some (applyToFiles h files (\<lambda>fmatter file. removeTag_callback tag key fmatter) w))"

section \<open>Tying the knot\<close>

text \<open>
  The first argument bounds the nesting of splits: with \<open>0\<close> a split cannot be carried
  out (the result \<open>None\<close> stands for a call that does not return), with \<open>n + 1\<close> the
  update that ends a split may itself split \<open>n\<close> deep.
\<close>

primrec updateFrontmatter ::
  "nat \<Rightarrow> host \<Rightarrow> settings \<Rightarrow> tfile list \<Rightarrow> (string \<times> jsval) list \<Rightarrow> world \<Rightarrow> (nat \<times> world) option" where
  "updateFrontmatter 0 h cfg = updateFrontmatter_with (\<lambda>file w. None) h cfg"
| "updateFrontmatter (Suc n) h cfg =
     updateFrontmatter_with (splitInstance_with (updateFrontmatter n h cfg) h cfg) h cfg"

definition splitInstance :: "nat \<Rightarrow> host \<Rightarrow> settings \<Rightarrow> tfile \<Rightarrow> world \<Rightarrow> world option" where
  "splitInstance n h cfg =
     (case n of
        0 \<Rightarrow> (\<lambda>file w. None)
      | Suc k \<Rightarrow> splitInstance_with (updateFrontmatter k h cfg) h cfg)"

definition promptForFrontmatterChange ::
  "nat \<Rightarrow> host \<Rightarrow> settings \<Rightarrow> tfile \<Rightarrow> string \<Rightarrow> world \<Rightarrow> (choice \<times> world) option" where
  "promptForFrontmatterChange n h cfg = promptForFrontmatterChange_with (splitInstance n h cfg) h"

definition handleFileFocus :: "nat \<Rightarrow> host \<Rightarrow> settings \<Rightarrow> tfile \<Rightarrow> world \<Rightarrow> world option" where
  "handleFileFocus n h cfg = handleFileFocus_with (splitInstance n h cfg) h"

definition handleFileModification :: "nat \<Rightarrow> host \<Rightarrow> settings \<Rightarrow> tfile \<Rightarrow> world \<Rightarrow> world option" where
  "handleFileModification n h cfg = handleFileModification_with (splitInstance n h cfg) h"

definition addTag ::
  "nat \<Rightarrow> host \<Rightarrow> settings \<Rightarrow> tfile list \<Rightarrow> string \<Rightarrow> string \<Rightarrow> world \<Rightarrow> (nat \<times> world) option" where
  "addTag n h cfg = addTag_with (splitInstance n h cfg) h cfg"

definition removeTag ::
  "nat \<Rightarrow> host \<Rightarrow> settings \<Rightarrow> tfile list \<Rightarrow> string \<Rightarrow> string \<Rightarrow> world \<Rightarrow> (nat \<times> world) option" where
  "removeTag n h cfg = removeTag_with (splitInstance n h cfg) h cfg"

section \<open>BulkEditService: setStatus\<close>

definition recurrenceStatusesOf :: "settings \<Rightarrow> string list" where
  "recurrenceStatusesOf cfg =
     (case recurrenceCompletionStatuses cfg of
        None \<Rightarrow> [''complete'', ''wont-do'']
      | Some xs \<Rightarrow> if length xs \<noteq> 0 then xs else [''complete'', ''wont-do''])"





text \<open>
  The loop of \<open>setStatus\<close> over the batch: a note whose indexed frontmatter carries a
  rule gets its successor, with the status read before the change passed along; when that
  is not handled the rule is cleared here, outside any \<open>try\<close>.
\<close>

fun setStatus_recurrence :: "host \<Rightarrow> settings \<Rightarrow> tfile list \<Rightarrow> world \<Rightarrow> unit completion \<times> world" where
  "setStatus_recurrence h cfg [] w = (Returns (), w)"
| "setStatus_recurrence h cfg (file # files) w =
     (case cache w (path file) of
        None \<Rightarrow> setStatus_recurrence h cfg files w
      | Some fmatter \<Rightarrow>
          if hasRule fmatter then
            let previousStatus = js_or (fmatter ''status'') (Some JNull);
                (handled, w1) = createNextRecurrenceInstance h cfg file fmatter previousStatus w
            in if \<not> handled then
                 (case clearRecurrenceRule h file w1 of
                    Inl e \<Rightarrow> (Throws e, w1)
                  | Inr w2 \<Rightarrow> setStatus_recurrence h cfg files w2)
               else setStatus_recurrence h cfg files w1
          else setStatus_recurrence h cfg files w)"




section \<open>Notions used in the statements\<close>

text \<open>
  The definitions of this section are not part of the program. They name what the
  theorems speak about: the rule of a frontmatter, the path and content of a successor,
  a note with its rule fields removed, the contract of the rule evaluator, and the
  relations between the vault and the metadata index that the proofs carry along.
\<close>

text \<open>A note exists at the path and carries no rule.\<close>

definition resolved :: "world \<Rightarrow> string \<Rightarrow> bool" where
  "resolved w p = (case vault w p of None \<Rightarrow> False | Some n \<Rightarrow> \<not> hasRule (frontmatter n))"

text \<open>The metadata index is not behind on the rule: a rule in the vault shows in the index.\<close>

definition visible :: "world \<Rightarrow> string \<Rightarrow> bool" where
  "visible w p =
     (case vault w p of
        None \<Rightarrow> True
      | Some n \<Rightarrow> hasRule (frontmatter n) \<longrightarrow>
                   (case cache w p of None \<Rightarrow> False | Some fmatter \<Rightarrow> hasRule fmatter))"

text \<open>
  What every step of the status change preserves: files stay, a note without a rule
  stays without one, and a rule that the index shows stays shown.
\<close>

definition keeps :: "world \<Rightarrow> world \<Rightarrow> bool" where
  "keeps w w' =
     (\<forall>p. vault w p \<noteq> None \<longrightarrow>
        vault w' p \<noteq> None \<and> (resolved w p \<longrightarrow> resolved w' p) \<and> (visible w p \<longrightarrow> visible w' p))"


text \<open>\<open>frontmatter.recurrenceRule || frontmatter.recurrence\<close>.\<close>

definition ruleOf :: "fm \<Rightarrow> jsval option" where
  "ruleOf fmatter = js_or (fmatter ''recurrenceRule'') (fmatter ''recurrence'')"

text \<open>The path \<open>createNextRecurrenceInstance\<close> derives for the occurrence at date \<open>d\<close>.\<close>

definition successorPath :: "host \<Rightarrow> tfile \<Rightarrow> int \<Rightarrow> string" where
  "successorPath h file d =
     newFilePathOf file (stripDateSuffix (basename file) @ '' '' @ moment_format h ''YYYY-MM-DD'' d @ ''.md'')"

text \<open>A note after \<open>clearRecurrenceRule\<close>: both rule fields are gone, nothing else changed.\<close>

definition clearedNote :: "mdnote \<Rightarrow> mdnote" where
  "clearedNote n = n\<lparr>frontmatter := (frontmatter n)(''recurrenceRule'' := None, ''recurrence'' := None)\<rparr>"

text \<open>
  The content of a successor: the content read from the source with the three fields
  \<open>scheduled\<close>, \<open>title\<close> and \<open>status\<close> patched.
\<close>

definition successorNote :: "host \<Rightarrow> settings \<Rightarrow> tfile \<Rightarrow> int \<Rightarrow> mdnote \<Rightarrow> mdnote" where
  "successorNote h cfg file d n =
     n\<lparr>frontmatter := (frontmatter n)
          (''scheduled'' \<mapsto> JStr (moment_format h ''YYYY-MM-DDTHH:mm:ss'' d),
           ''title'' \<mapsto> JStr (stripDateSuffix (basename file)),
           ''status'' \<mapsto> JStr (if recurrenceDefaultStatus cfg \<noteq> [] then recurrenceDefaultStatus cfg
                                 else ''open''))\<rparr>"

text \<open>
  The contract of the evaluator's \<open>after(d, false)\<close> as its documentation states it:
  an occurrence it returns lies strictly after \<open>d\<close>.
\<close>

definition afterIsStrict :: "host \<Rightarrow> bool" where
  "afterIsStrict h = (\<forall>opts d r. RRule_after h opts (Valid d) False = Inr (Some r) \<longrightarrow> d < r)"

text \<open>
  The state a split leaves behind, as far as the nested update can observe it: the source
  has no rule fields, the successor exists, the clock reads \<open>c0\<close>, and if the index still
  shows a rule for the source, it shows the frontmatter the split started from.
\<close>

definition settled :: "tfile \<Rightarrow> fm \<Rightarrow> string \<Rightarrow> int \<Rightarrow> world \<Rightarrow> bool" where
  "settled file fmS tgt c0 u =
     ((\<exists>m. vault u (path file) = Some m \<and> frontmatter m ''recurrenceRule'' = None \<and>
           frontmatter m ''recurrence'' = None) \<and>
      vault u tgt \<noteq> None \<and> clock u = c0 \<and>
      (\<forall>fm'. cache u (path file) = Some fm' \<longrightarrow> hasRule fm' \<longrightarrow> fm' = fmS))"

section \<open>Example data\<close>

text \<open>
  The note of the first scenario: a weekly task scheduled on 2024-01-01, status open, with
  one unticked checklist item, in the folder \<open>Tasks\<close>. The example evaluator knows the
  rule \<open>FREQ=WEEKLY\<close> and rejects everything else; the example user cancels every
  recurrence prompt and presses \<open>Open Note\<close> on the checklist prompt.
\<close>

definition host0 :: host where
  "host0 =
     \<lparr>user_answer = (\<lambda>n. Cancel),
      checklist_answer = (\<lambda>n. Some OpenNote),
      fails = (\<lambda>op p. False),
      autoIndex = False,
      RRule_parseString = (\<lambda>v. if v = JStr ''FREQ=WEEKLY''
                                   then Inr \<lparr>dtstart = None, parts = [(''FREQ'', ''WEEKLY'')]\<rparr>
                                   else Inl EvalError),
      RRule_after = (\<lambda>opts d inc. case d of Valid t \<Rightarrow> Inr (Some (t + 604800000))
                                             | InvalidDate \<Rightarrow> Inl EvalError),
      new_Date = (\<lambda>v. if v = JStr ''2024-01-01'' then Valid 1704067200000 else InvalidDate),
      moment_format = (\<lambda>f d. if f = ''YYYY-MM-DD'' then ''2024-01-08'' else ''2024-01-08T00:00:00''),
      open_items = (\<lambda>c. if body c = ''- [ ] fill the can'' then [''fill the can''] else []),
      tick_items = (\<lambda>r c. if body c = ''- [ ] fill the can''
                              then c\<lparr>body := ''- '' @ drop 2 r @ '' fill the can''\<rparr> else c)\<rparr>"

definition cfg0 :: settings where
  "cfg0 =
     \<lparr>enableRecurrence = True, promptOnRecurrenceEdit = True, recurrencePromptTimeout = 5,
      recurrenceCompletionStatuses = Some [''complete'', ''wont-do''],
      recurrenceDefaultStatus = ''open'', checkOpenChecklistItems = True\<rparr>"

definition file0 :: tfile where
  "file0 = \<lparr>path = ''Tasks/Water plants.md'', basename = ''Water plants'', extension = ''md'',
            parent = Some ''Tasks''\<rparr>"

definition fm0 :: fm where
  "fm0 = [''recurrenceRule'' \<mapsto> JStr ''FREQ=WEEKLY'', ''scheduled'' \<mapsto> JStr ''2024-01-01'',
          ''status'' \<mapsto> JStr ''open'']"

definition note0 :: mdnote where
  "note0 = \<lparr>frontmatter = fm0, body = ''- [ ] fill the can''\<rparr>"

definition world0 :: world where
  "world0 =
     \<lparr>vault = [''Tasks/Water plants.md'' \<mapsto> note0],
      cache = [''Tasks/Water plants.md'' \<mapsto> fm0],
      modifiedFiles = Map.empty, sessionDuration = 300000, clock = 1704100000000,
      loggingEnabled = False, console = [], notices = [], shown = [], checklistShown = 0,
      opened = []\<rparr>"

definition hostIgnore :: host where
  "hostIgnore = host0\<lparr>checklist_answer := (\<lambda>n. Some IgnoreItems)\<rparr>"

definition hostFailing :: host where
  "hostFailing = host0\<lparr>fails := (\<lambda>op p. op = OpPatch \<and> p = ''Tasks/Water plants.md'')\<rparr>"

definition notePending :: mdnote where
  "notePending = \<lparr>frontmatter = fm0(''status'' \<mapsto> JStr ''wont-do''), body = ''- [ ] fill the can''\<rparr>"

definition worldPending :: world where
  "worldPending =
     world0\<lparr>vault := [''Tasks/Water plants.md'' \<mapsto> notePending],
            cache := [''Tasks/Water plants.md'' \<mapsto> fm0(''status'' \<mapsto> JStr ''wont-do'')]\<rparr>"

definition noteExisting :: mdnote where
  "noteExisting = \<lparr>frontmatter = [''status'' \<mapsto> JStr ''complete''], body = ''done last week''\<rparr>"

definition worldBoth :: world where
  "worldBoth =
     world0\<lparr>vault := [''Tasks/Water plants.md'' \<mapsto> note0,
                       ''Tasks/Water plants 2024-01-08.md'' \<mapsto> noteExisting]\<rparr>"

definition fmGarbage :: fm where
  "fmGarbage = [''recurrenceRule'' \<mapsto> JStr ''garbage'', ''status'' \<mapsto> JStr ''open'']"

definition noteGarbage :: mdnote where
  "noteGarbage = \<lparr>frontmatter = fmGarbage, body = ''no items''\<rparr>"

definition worldGarbage :: world where
  "worldGarbage =
     world0\<lparr>vault := [''Tasks/Water plants.md'' \<mapsto> noteGarbage],
            cache := [''Tasks/Water plants.md'' \<mapsto> fmGarbage]\<rparr>"

definition fileB :: tfile where
  "fileB = \<lparr>path = ''Tasks/Feed cat.md'', basename = ''Feed cat'', extension = ''md'',
            parent = Some ''Tasks''\<rparr>"

definition worldTwo :: world where
  "worldTwo =
     world0\<lparr>vault := [''Tasks/Water plants.md'' \<mapsto> note0, ''Tasks/Feed cat.md'' \<mapsto> note0],
            cache := [''Tasks/Water plants.md'' \<mapsto> fm0, ''Tasks/Feed cat.md'' \<mapsto> fm0]\<rparr>"

definition hostSecond :: host where
  "hostSecond = host0\<lparr>user_answer := (\<lambda>n. if n = 0 then UpdateAll else Cancel)\<rparr>"

definition hostSplit :: host where
  "hostSplit = host0\<lparr>autoIndex := True, user_answer := (\<lambda>n. if n = 0 then Split else Cancel)\<rparr>"

definition cfgDone :: settings where
  "cfgDone = cfg0\<lparr>recurrenceCompletionStatuses := Some [''done'']\<rparr>"

definition worldDone :: world where
  "worldDone = world0\<lparr>cache := [''Tasks/Water plants.md'' \<mapsto> fm0(''status'' \<mapsto> JStr ''done'')]\<rparr>"

definition worldComplete :: world where
  "worldComplete =
     world0\<lparr>cache := [''Tasks/Water plants.md'' \<mapsto> fm0(''status'' \<mapsto> JStr ''complete'')]\<rparr>"

section \<open>Facts about the example data\<close>

lemmas ex_defs = host0_def cfg0_def file0_def fm0_def note0_def world0_def hostIgnore_def
  hostFailing_def notePending_def worldPending_def noteExisting_def worldBoth_def fmGarbage_def
  noteGarbage_def worldGarbage_def cfgDone_def worldDone_def worldComplete_def fileB_def
  worldTwo_def hostSecond_def hostSplit_def

lemma ex_rule: "ruleOf fm0 = Some (JStr ''FREQ=WEEKLY'')" "truthy (JStr ''FREQ=WEEKLY'')"
  by (simp_all add: ruleOf_def js_or_def truthy_prop_def fm0_def)

lemma ex_next:
  "fst (getNextOccurrence host0 (JStr ''FREQ=WEEKLY'') (fm0 ''scheduled'') w) = Some 1704672000000"
  by (simp add: getNextOccurrence_def getNextOccurrence_try_def host0_def fm0_def)

lemma ex_path: "successorPath host0 file0 d = ''Tasks/Water plants 2024-01-08.md''"
  by (simp add: successorPath_def host0_def file0_def stripDateSuffix_def isDateSuffix_def newFilePathOf_def)

lemma ex_reliable: "\<forall>op p. \<not> fails host0 op p"
  by (simp add: host0_def)

lemma ex_prompt_defs:
  "shown world0 = []" "user_answer host0 k = Cancel"
  by (simp_all add: world0_def host0_def)

lemmas ex_run_defs = hasRule_def truthy_prop_def statusDone_def splitInstance_def
  splitInstance_with_def createNextRecurrenceInstance_def js_or_def getNextOccurrence_def
  getNextOccurrence_try_def stripDateSuffix_def isDateSuffix_def newFilePathOf_def
  adapter_exists_def createNext_spawn_def createNext_clear_def vault_read_def vault_create_def
  isTFile_def clearRecurrenceRule_def processFrontMatter_def reindex_def logger_warn_def
  updateFrontmatter_with_def changeDescOf_def promptForFrontmatterChange_with_def
  wasRecentlyModified_def promptUser_def markAsModified_def markFileAsModified_def Notice_def
  applyToFiles_def toLowerCase_def Let_def

lemma ex_garbage: "ruleOf fmGarbage = Some (JStr ''garbage'')" "truthy (JStr ''garbage'')"
  "fst (getNextOccurrence host0 (JStr ''garbage'') (fmGarbage ''scheduled'') w) = None"
  by (simp_all add: ruleOf_def js_or_def truthy_prop_def fmGarbage_def getNextOccurrence_def
        getNextOccurrence_try_def host0_def)

section \<open>Facts about the host operations and the small steps\<close>

lemma logger_error_fields [simp]:
  "vault (logger_error m w) = vault w" "cache (logger_error m w) = cache w"
  "modifiedFiles (logger_error m w) = modifiedFiles w" "sessionDuration (logger_error m w) = sessionDuration w"
  "clock (logger_error m w) = clock w" "loggingEnabled (logger_error m w) = loggingEnabled w"
  "notices (logger_error m w) = notices w" "shown (logger_error m w) = shown w"
  "checklistShown (logger_error m w) = checklistShown w" "opened (logger_error m w) = opened w"
  by (simp_all add: logger_error_def)

lemma logger_warn_fields [simp]:
  "vault (logger_warn m w) = vault w" "cache (logger_warn m w) = cache w"
  "modifiedFiles (logger_warn m w) = modifiedFiles w" "sessionDuration (logger_warn m w) = sessionDuration w"
  "clock (logger_warn m w) = clock w" "loggingEnabled (logger_warn m w) = loggingEnabled w"
  "notices (logger_warn m w) = notices w" "shown (logger_warn m w) = shown w"
  "checklistShown (logger_warn m w) = checklistShown w" "opened (logger_warn m w) = opened w"
  by (simp_all add: logger_warn_def)

lemma Notice_fields [simp]:
  "vault (Notice m w) = vault w" "cache (Notice m w) = cache w"
  "modifiedFiles (Notice m w) = modifiedFiles w" "sessionDuration (Notice m w) = sessionDuration w"
  "clock (Notice m w) = clock w" "loggingEnabled (Notice m w) = loggingEnabled w"
  "console (Notice m w) = console w" "shown (Notice m w) = shown w"
  "checklistShown (Notice m w) = checklistShown w" "opened (Notice m w) = opened w"
  by (simp_all add: Notice_def)

lemma markAsModified_fields [simp]:
  "vault (markAsModified p w) = vault w" "cache (markAsModified p w) = cache w"
  "modifiedFiles (markAsModified p w) = (modifiedFiles w)(p \<mapsto> clock w)"
  "sessionDuration (markAsModified p w) = sessionDuration w"
  "clock (markAsModified p w) = clock w" "loggingEnabled (markAsModified p w) = loggingEnabled w"
  "console (markAsModified p w) = console w" "notices (markAsModified p w) = notices w"
  "shown (markAsModified p w) = shown w"
  "checklistShown (markAsModified p w) = checklistShown w" "opened (markAsModified p w) = opened w"
  by (simp_all add: markAsModified_def)

lemma wasRecentlyModified_fields [simp]:
  "vault (snd (wasRecentlyModified p w)) = vault w" "cache (snd (wasRecentlyModified p w)) = cache w"
  "sessionDuration (snd (wasRecentlyModified p w)) = sessionDuration w"
  "clock (snd (wasRecentlyModified p w)) = clock w"
  "loggingEnabled (snd (wasRecentlyModified p w)) = loggingEnabled w"
  "console (snd (wasRecentlyModified p w)) = console w" "notices (snd (wasRecentlyModified p w)) = notices w"
  "shown (snd (wasRecentlyModified p w)) = shown w"
  "checklistShown (snd (wasRecentlyModified p w)) = checklistShown w"
  "opened (snd (wasRecentlyModified p w)) = opened w"
  by (simp_all add: wasRecentlyModified_def Let_def split: option.splits)

lemma promptUser_fields [simp]:
  "fst (promptUser h c f w) = user_answer h (length (shown w))"
  "vault (snd (promptUser h c f w)) = vault w" "cache (snd (promptUser h c f w)) = cache w"
  "modifiedFiles (snd (promptUser h c f w)) = modifiedFiles w"
  "sessionDuration (snd (promptUser h c f w)) = sessionDuration w"
  "clock (snd (promptUser h c f w)) = clock w"
  "loggingEnabled (snd (promptUser h c f w)) = loggingEnabled w"
  "console (snd (promptUser h c f w)) = console w" "notices (snd (promptUser h c f w)) = notices w"
  "shown (snd (promptUser h c f w)) = shown w @ [(c, path f)]"
  "checklistShown (snd (promptUser h c f w)) = checklistShown w"
  "opened (snd (promptUser h c f w)) = opened w"
  by (simp_all add: promptUser_def)

lemma processFrontMatter_Inr:
  assumes "processFrontMatter h p fn w = Inr w'"
  obtains n where "vault w p = Some n" "\<not> fails h OpPatch p"
    "vault w' = (vault w)(p \<mapsto> n\<lparr>frontmatter := fn (frontmatter n)\<rparr>)"
    "cache w' = (if autoIndex h then (cache w)(p \<mapsto> fn (frontmatter n)) else cache w)"
    "modifiedFiles w' = modifiedFiles w" "sessionDuration w' = sessionDuration w" "clock w' = clock w"
    "loggingEnabled w' = loggingEnabled w" "console w' = console w" "notices w' = notices w"
    "shown w' = shown w" "checklistShown w' = checklistShown w" "opened w' = opened w"
  using assms by (auto simp: processFrontMatter_def reindex_def split: option.splits if_splits)

lemma processFrontMatter_ok:
  assumes "vault w p = Some n" "\<not> fails h OpPatch p"
  shows "\<exists>w'. processFrontMatter h p fn w = Inr w'"
  using assms by (simp add: processFrontMatter_def)

lemma vault_create_Inr:
  assumes "vault_create h p content w = Inr w'"
  obtains "vault w p = None" "\<not> fails h OpCreate p"
    "vault w' = (vault w)(p \<mapsto> content)"
    "cache w' = (if autoIndex h then (cache w)(p \<mapsto> frontmatter content) else cache w)"
    "modifiedFiles w' = modifiedFiles w" "sessionDuration w' = sessionDuration w" "clock w' = clock w"
    "loggingEnabled w' = loggingEnabled w" "console w' = console w" "notices w' = notices w"
    "shown w' = shown w" "checklistShown w' = checklistShown w" "opened w' = opened w"
  using assms by (auto simp: vault_create_def reindex_def split: option.splits if_splits)

lemma vault_modify_Inr:
  assumes "vault_modify h p content w = Inr w'"
  obtains "vault w p \<noteq> None" "\<not> fails h OpModify p"
    "vault w' = (vault w)(p \<mapsto> content)"
    "cache w' = (if autoIndex h then (cache w)(p \<mapsto> frontmatter content) else cache w)"
    "modifiedFiles w' = modifiedFiles w" "sessionDuration w' = sessionDuration w" "clock w' = clock w"
    "loggingEnabled w' = loggingEnabled w" "console w' = console w" "notices w' = notices w"
    "shown w' = shown w" "checklistShown w' = checklistShown w" "opened w' = opened w"
  using assms by (auto simp: vault_modify_def reindex_def split: option.splits if_splits)

lemma vault_read_Inr:
  assumes "vault_read h p w = Inr n"
  shows "vault w p = Some n"
  using assms by (auto simp: vault_read_def split: option.splits if_splits)

section \<open>What successor creation preserves\<close>

lemma keeps_refl [simp]: "keeps w w"
  by (simp add: keeps_def)

lemma keeps_trans: "keeps w1 w2 \<Longrightarrow> keeps w2 w3 \<Longrightarrow> keeps w1 w3"
  unfolding keeps_def by blast

lemma keeps_same: "vault w' = vault w \<Longrightarrow> cache w' = cache w \<Longrightarrow> keeps w w'"
  by (simp add: keeps_def resolved_def visible_def split: option.splits)

lemma keeps_patch:
  assumes ok: "processFrontMatter h x fn w = Inr w'"
    and neutral: "\<And>fmatter. hasRule (fn fmatter) \<Longrightarrow> hasRule fmatter"
  shows "keeps w w'"
proof -
  from ok obtain n where n: "vault w x = Some n"
    and v: "vault w' = (vault w)(x \<mapsto> n\<lparr>frontmatter := fn (frontmatter n)\<rparr>)"
    and c: "cache w' = (if autoIndex h then (cache w)(x \<mapsto> fn (frontmatter n)) else cache w)"
    by (rule processFrontMatter_Inr)
  show ?thesis
    unfolding keeps_def
  proof (intro allI impI)
    fix p assume ex: "vault w p \<noteq> None"
    show "vault w' p \<noteq> None \<and> (resolved w p \<longrightarrow> resolved w' p) \<and> (visible w p \<longrightarrow> visible w' p)"
    proof (cases "p = x")
      case False
      then show ?thesis using ex v c by (auto simp: resolved_def visible_def split: option.splits)
    next
      case True
      then show ?thesis using n v c neutral[of "frontmatter n"]
        by (auto simp: resolved_def visible_def split: option.splits)
    qed
  qed
qed

lemma keeps_create:
  assumes ok: "vault_create h x content w = Inr w'"
  shows "keeps w w'"
proof -
  from ok have free: "vault w x = None"
    and v: "vault w' = (vault w)(x \<mapsto> content)"
    and c: "cache w' = (if autoIndex h then (cache w)(x \<mapsto> frontmatter content) else cache w)"
    by (auto elim: vault_create_Inr)
  show ?thesis
    unfolding keeps_def
  proof (intro allI impI)
    fix p assume ex: "vault w p \<noteq> None"
    then have "p \<noteq> x" using free by auto
    then show "vault w' p \<noteq> None \<and> (resolved w p \<longrightarrow> resolved w' p) \<and> (visible w p \<longrightarrow> visible w' p)"
      using ex v c by (auto simp: resolved_def visible_def split: option.splits)
  qed
qed

lemma clear_neutral:
  "hasRule (fmatter(''recurrenceRule'' := None, ''recurrence'' := None)) \<Longrightarrow> hasRule fmatter"
  by (simp add: hasRule_def truthy_prop_def)

lemma clear_not_hasRule [simp]:
  "\<not> hasRule (fmatter(''recurrenceRule'' := None, ''recurrence'' := None))"
  by (simp add: hasRule_def truthy_prop_def)

lemma successor_neutral:
  "hasRule (fmatter(''scheduled'' \<mapsto> a, ''title'' \<mapsto> b, ''status'' \<mapsto> c)) \<Longrightarrow> hasRule fmatter"
  by (simp add: hasRule_def)

lemma keeps_clear:
  assumes "clearRecurrenceRule h file w = Inr w'"
  shows "keeps w w'" and "resolved w' (path file)"
proof -
  show "keeps w w'"
    using assms unfolding clearRecurrenceRule_def by (rule keeps_patch) (rule clear_neutral)
  from assms obtain n where "vault w' = (vault w)(path file \<mapsto>
      n\<lparr>frontmatter := (frontmatter n)(''recurrenceRule'' := None, ''recurrence'' := None)\<rparr>)"
    unfolding clearRecurrenceRule_def by (rule processFrontMatter_Inr)
  then show "resolved w' (path file)" by (simp add: resolved_def)
qed

lemma keeps_catch: "keeps w (snd (createNext_catch w))"
  by (rule keeps_same) (simp_all add: createNext_catch_def)

lemma catch_not_handled [simp]: "fst (createNext_catch w) = False"
  by (simp add: createNext_catch_def)

lemma createNext_clear_keeps:
  "keeps w (snd (createNext_clear h file m w))"
  "fst (createNext_clear h file m w) \<Longrightarrow> resolved (snd (createNext_clear h file m w)) (path file)"
proof -
  have k0: "keeps w (logger_warn m w)" by (rule keeps_same) simp_all
  show "keeps w (snd (createNext_clear h file m w))"
  proof (cases "clearRecurrenceRule h file (logger_warn m w)")
    case (Inl e)
    then show ?thesis using keeps_trans[OF k0 keeps_catch] by (simp add: createNext_clear_def)
  next
    case (Inr w3)
    then show ?thesis using keeps_trans[OF k0 keeps_clear(1)[OF Inr]] by (simp add: createNext_clear_def)
  qed
  show "fst (createNext_clear h file m w) \<Longrightarrow> resolved (snd (createNext_clear h file m w)) (path file)"
    by (cases "clearRecurrenceRule h file (logger_warn m w)")
       (auto simp: createNext_clear_def dest: keeps_clear(2))
qed

lemma resolved_Notice [simp]: "resolved (Notice m w) p = resolved w p"
  by (simp add: resolved_def)

lemma createNext_spawn_keeps:
  "keeps w (snd (createNext_spawn h cfg file d b nm np w))"
  "fst (createNext_spawn h cfg file d b nm np w) \<Longrightarrow>
     resolved (snd (createNext_spawn h cfg file d b nm np w)) (path file)"
proof -
  let ?r = "createNext_spawn h cfg file d b nm np w"
  have "keeps w (snd ?r) \<and> (fst ?r \<longrightarrow> resolved (snd ?r) (path file))"
  proof (cases "vault_read h (path file) w")
    case (Inl e)
    then show ?thesis using keeps_catch[of w] by (simp add: createNext_spawn_def)
  next
    case (Inr content)
    show ?thesis
    proof (cases "vault_create h np content w")
      case (Inl e)
      then show ?thesis using Inr keeps_catch[of w] by (simp add: createNext_spawn_def)
    next
      case w2: (Inr w2)
      have k2: "keeps w w2" using w2 by (rule keeps_create)
      show ?thesis
      proof (cases "isTFile h np w2")
        case False
        have "keeps w2 (logger_error ''[TPS GCM] Could not get newly created file'' w2)"
          by (rule keeps_same) simp_all
        then show ?thesis using False Inr w2 keeps_trans[OF k2]
          by (simp add: createNext_spawn_def)
      next
        case True
        let ?fn = "\<lambda>fm::fm. fm(''scheduled'' \<mapsto> JStr (moment_format h ''YYYY-MM-DDTHH:mm:ss'' d),
                     ''title'' \<mapsto> JStr b,
                     ''status'' \<mapsto> JStr (if recurrenceDefaultStatus cfg \<noteq> [] then recurrenceDefaultStatus cfg else ''open''))"
        show ?thesis
        proof (cases "processFrontMatter h np ?fn w2")
          case (Inl e)
          then show ?thesis using True Inr w2 keeps_trans[OF k2 keeps_catch]
            by (simp add: createNext_spawn_def Let_def)
        next
          case w3: (Inr w3)
          have k3: "keeps w2 w3" using w3 by (rule keeps_patch) (rule successor_neutral)
          show ?thesis
          proof (cases "clearRecurrenceRule h file w3")
            case (Inl e)
            then show ?thesis using True Inr w2 w3 keeps_trans[OF keeps_trans[OF k2 k3] keeps_catch]
              by (simp add: createNext_spawn_def Let_def)
          next
            case w4: (Inr w4)
            have k4: "keeps w3 w4" and r4: "resolved w4 (path file)"
              using keeps_clear[OF w4] by auto
            have "keeps w4 (Notice (''Created next recurrence: '' @ nm) w4)"
              by (rule keeps_same) simp_all
            with k2 k3 k4 have "keeps w (Notice (''Created next recurrence: '' @ nm) w4)"
              by (blast intro: keeps_trans)
            then show ?thesis using True Inr w2 w3 w4 r4
              by (simp add: createNext_spawn_def Let_def)
          qed
        qed
      qed
    qed
  qed
  then show "keeps w (snd ?r)" and "fst ?r \<Longrightarrow> resolved (snd ?r) (path file)" by auto
qed

lemma getNextOccurrence_fields [simp]:
  "vault (snd (getNextOccurrence h r c w)) = vault w" "cache (snd (getNextOccurrence h r c w)) = cache w"
  "modifiedFiles (snd (getNextOccurrence h r c w)) = modifiedFiles w"
  "sessionDuration (snd (getNextOccurrence h r c w)) = sessionDuration w"
  "clock (snd (getNextOccurrence h r c w)) = clock w"
  "loggingEnabled (snd (getNextOccurrence h r c w)) = loggingEnabled w"
  "notices (snd (getNextOccurrence h r c w)) = notices w" "shown (snd (getNextOccurrence h r c w)) = shown w"
  "checklistShown (snd (getNextOccurrence h r c w)) = checklistShown w"
  "opened (snd (getNextOccurrence h r c w)) = opened w"
  by (simp_all add: getNextOccurrence_def split: sum.splits)

lemma createNext_keeps:
  "keeps w (snd (createNextRecurrenceInstance h cfg file fmatter carry w))"
  "fst (createNextRecurrenceInstance h cfg file fmatter carry w) \<Longrightarrow>
     resolved (snd (createNextRecurrenceInstance h cfg file fmatter carry w)) (path file)"
proof -
  let ?r = "createNextRecurrenceInstance h cfg file fmatter carry w"
  have "keeps w (snd ?r) \<and> (fst ?r \<longrightarrow> resolved (snd ?r) (path file))"
  proof (cases "js_or (fmatter ''recurrenceRule'') (fmatter ''recurrence'')")
    case None
    then show ?thesis by (simp add: createNextRecurrenceInstance_def)
  next
    case (Some rule)
    show ?thesis
    proof (cases "truthy rule")
      case False
      then show ?thesis using Some by (simp add: createNextRecurrenceInstance_def)
    next
      case True
      obtain nd w1 where g: "getNextOccurrence h rule (fmatter ''scheduled'') w = (nd, w1)"
        by (cases "getNextOccurrence h rule (fmatter ''scheduled'') w")
      have k1: "keeps w w1" using g getNextOccurrence_fields(1,2)[of h rule "fmatter ''scheduled''" w]
        by (intro keeps_same) simp_all
      show ?thesis
      proof (cases nd)
        case None
        then show ?thesis using Some True g keeps_trans[OF k1 createNext_clear_keeps(1)]
            createNext_clear_keeps(2)
          by (simp add: createNextRecurrenceInstance_def)
      next
        case d: (Some d)
        let ?np = "newFilePathOf file (stripDateSuffix (basename file) @ '' '' @ moment_format h ''YYYY-MM-DD'' d @ ''.md'')"
        show ?thesis
        proof (cases "adapter_exists h ?np w1")
          case (Inl e)
          then show ?thesis using Some True g d keeps_trans[OF k1 keeps_catch]
            by (simp add: createNextRecurrenceInstance_def Let_def)
        next
          case (Inr ex)
          then show ?thesis using Some True g d keeps_trans[OF k1 createNext_clear_keeps(1)]
              createNext_clear_keeps(2) keeps_trans[OF k1 createNext_spawn_keeps(1)] createNext_spawn_keeps(2)
            by (cases ex) (simp_all add: createNextRecurrenceInstance_def Let_def)
        qed
      qed
    qed
  qed
  then show "keeps w (snd ?r)" and "fst ?r \<Longrightarrow> resolved (snd ?r) (path file)" by auto
qed

section \<open>The status change\<close>

lemma keeps_exists: "keeps w w' \<Longrightarrow> vault w p \<noteq> None \<Longrightarrow> vault w' p \<noteq> None"
  by (simp add: keeps_def)

lemma keeps_resolved: "keeps w w' \<Longrightarrow> resolved w p \<Longrightarrow> resolved w' p"
  by (auto simp: keeps_def resolved_def split: option.splits)

lemma keeps_batch:
  assumes "\<forall>f\<in>S. vault w (path f) \<noteq> None \<and> \<not> fails h OpPatch (path f) \<and> visible w (path f)"
    and "keeps w u"
  shows "\<forall>f\<in>S. vault u (path f) \<noteq> None \<and> \<not> fails h OpPatch (path f) \<and> visible u (path f)"
  using assms unfolding keeps_def by blast

lemma keeps_visible: "keeps w w' \<Longrightarrow> vault w p \<noteq> None \<Longrightarrow> visible w p \<Longrightarrow> visible w' p"
  by (simp add: keeps_def)

lemma visible_no_rule:
  assumes "visible w p" "vault w p \<noteq> None"
    and "case cache w p of None \<Rightarrow> True | Some fmatter \<Rightarrow> \<not> hasRule fmatter"
  shows "resolved w p"
  using assms by (auto simp: visible_def resolved_def split: option.splits)

lemma setStatus_recurrence_resolves:
  assumes "\<forall>f\<in>set batch. vault w (path f) \<noteq> None \<and> \<not> fails h OpPatch (path f) \<and> visible w (path f)"
    and "set files \<subseteq> set batch"
  shows "\<exists>w'. setStatus_recurrence h cfg files w = (Returns (), w') \<and> keeps w w' \<and>
           (\<forall>f\<in>set files. resolved w' (path f))"
  using assms
proof (induction files arbitrary: w)
  case Nil
  then show ?case by simp
next
  case (Cons f files)
  have fb: "f \<in> set batch" and sub: "set files \<subseteq> set batch" using Cons.prems(2) by auto
  have ex: "vault w (path f) \<noteq> None" and nf: "\<not> fails h OpPatch (path f)" and vis: "visible w (path f)"
    using Cons.prems(1) fb by auto
  have step: "\<exists>w'. setStatus_recurrence h cfg files u = (Returns (), w') \<and> keeps w w' \<and>
           (\<forall>g\<in>set (f # files). resolved w' (path g))"
    if k: "keeps w u" and r: "resolved u (path f)" for u
  proof -
    have "\<forall>g\<in>set batch. vault u (path g) \<noteq> None \<and> \<not> fails h OpPatch (path g) \<and> visible u (path g)"
      using Cons.prems(1) k by (rule keeps_batch)
    from Cons.IH[OF this sub] obtain w' where
      w': "setStatus_recurrence h cfg files u = (Returns (), w')" "keeps u w'"
        "\<forall>g\<in>set files. resolved w' (path g)" by blast
    have "resolved w' (path f)" using keeps_resolved[OF w'(2) r] .
    with w' k show ?thesis by (auto intro: keeps_trans)
  qed
  show ?case
  proof (cases "cache w (path f)")
    case None
    then have "resolved w (path f)" using visible_no_rule[OF vis ex] by simp
    from step[OF keeps_refl this] show ?thesis using None by simp
  next
    case (Some fmatter)
    show ?thesis
    proof (cases "hasRule fmatter")
      case False
      then have "resolved w (path f)" using visible_no_rule[OF vis ex] Some by simp
      from step[OF keeps_refl this] show ?thesis using Some False by simp
    next
      case True
      let ?r = "createNextRecurrenceInstance h cfg f fmatter (js_or (fmatter ''status'') (Some JNull)) w"
      have k1: "keeps w (snd ?r)" by (rule createNext_keeps(1))
      show ?thesis
      proof (cases "fst ?r")
        case handled: True
        then have "resolved (snd ?r) (path f)" by (rule createNext_keeps(2))
        from step[OF k1 this] show ?thesis using Some True handled
          by (simp add: split_beta)
      next
        case unhandled: False
        have "vault (snd ?r) (path f) \<noteq> None" using keeps_exists[OF k1 ex] .
        then obtain w2 where w2: "clearRecurrenceRule h f (snd ?r) = Inr w2"
          using nf processFrontMatter_ok[of "snd ?r" "path f" _ h] unfolding clearRecurrenceRule_def by blast
        from keeps_clear[OF w2] have "keeps w w2" "resolved w2 (path f)"
          using k1 by (auto intro: keeps_trans)
        from step[OF this] show ?thesis using Some True unhandled w2
          by (simp add: split_beta)
      qed
    qed
  qed
qed






lemma status_update_sets:
  "applyUpdates [(''status'', JStr s)] fmatter ''status'' = Some (JStr s)"
  by simp

lemma keeps_modify:
  assumes ok: "vault_modify h x content w = Inr w'"
    and same: "vault w x = Some n" "frontmatter content = frontmatter n"
  shows "keeps w w'"
proof -
  from ok have v: "vault w' = (vault w)(x \<mapsto> content)"
    and c: "cache w' = (if autoIndex h then (cache w)(x \<mapsto> frontmatter content) else cache w)"
    by (auto elim: vault_modify_Inr)
  show ?thesis
    unfolding keeps_def
  proof (intro allI impI)
    fix p assume ex: "vault w p \<noteq> None"
    show "vault w' p \<noteq> None \<and> (resolved w p \<longrightarrow> resolved w' p) \<and> (visible w p \<longrightarrow> visible w' p)"
      using ex v c same by (cases "p = x") (auto simp: resolved_def visible_def split: option.splits)
  qed
qed

text \<open>
  The third parameter of \<open>createNextRecurrenceInstance\<close>, the status carried over, is not
  read in its body: the result is the same for every value passed.
\<close>

lemma createNext_status_unread:
  "createNextRecurrenceInstance h cfg file fmatter s w =
   createNextRecurrenceInstance h cfg file fmatter s' w"
  by (simp add: createNextRecurrenceInstance_def)





section \<open>The successor: exact results\<close>

lemma hasRule_ruleOf: "hasRule fmatter \<longleftrightarrow> (\<exists>r. ruleOf fmatter = Some r \<and> truthy r)"
  by (auto simp: hasRule_def ruleOf_def js_or_def truthy_prop_def split: option.splits)

lemma createNext_no_rule:
  "\<not> hasRule fmatter \<Longrightarrow> createNextRecurrenceInstance h cfg file fmatter carry w = (False, w)"
  by (auto simp: createNextRecurrenceInstance_def hasRule_def js_or_def truthy_prop_def split: option.splits)

lemma getNextOccurrence_try_clock:
  "clock u = clock w \<Longrightarrow> getNextOccurrence_try h r c u = getNextOccurrence_try h r c w"
  by (cases c) (simp_all add: getNextOccurrence_try_def)

lemma getNextOccurrence_Inr:
  "getNextOccurrence_try h r c w = Inr x \<Longrightarrow> getNextOccurrence h r c w = (x, w)"
  by (simp add: getNextOccurrence_def)

lemma createNext_unfold:
  assumes "ruleOf fmatter = Some rule" "truthy rule"
  shows "createNextRecurrenceInstance h cfg file fmatter carry w =
     (case getNextOccurrence h rule (fmatter ''scheduled'') w of
        (None, w1) \<Rightarrow> createNext_clear h file ''[TPS GCM] Could not calculate next recurrence date'' w1
      | (Some d, w1) \<Rightarrow>
          (case adapter_exists h (successorPath h file d) w1 of
             Inl e \<Rightarrow> createNext_catch w1
           | Inr True \<Rightarrow> createNext_clear h file
               (''[TPS GCM] Next recurrence already exists, skipping creation: '' @ successorPath h file d) w1
           | Inr False \<Rightarrow> createNext_spawn h cfg file d (stripDateSuffix (basename file))
               (stripDateSuffix (basename file) @ '' '' @ moment_format h ''YYYY-MM-DD'' d @ ''.md'')
               (successorPath h file d) w1))"
  using assms
  by (auto simp: createNextRecurrenceInstance_def ruleOf_def successorPath_def Let_def
           split: prod.splits option.splits sum.splits bool.splits)

lemma clearedNote_idem:
  "frontmatter m ''recurrenceRule'' = None \<Longrightarrow> frontmatter m ''recurrence'' = None \<Longrightarrow>
   m\<lparr>frontmatter := (frontmatter m)(''recurrenceRule'' := None, ''recurrence'' := None)\<rparr> = m"
  by (simp add: fun_upd_idem)

lemma createNext_clear_ok:
  assumes "vault w (path file) = Some n" "\<not> fails h OpPatch (path file)"
  shows "fst (createNext_clear h file m w) = True"
    and "vault (snd (createNext_clear h file m w)) = (vault w)(path file \<mapsto> clearedNote n)"
    and "cache (snd (createNext_clear h file m w)) =
           (if autoIndex h then (cache w)(path file \<mapsto> frontmatter (clearedNote n)) else cache w)"
    and "console (snd (createNext_clear h file m w)) =
           console w @ (if loggingEnabled w then [(WarnLevel, m)] else [])"
    and "notices (snd (createNext_clear h file m w)) = notices w"
    and "shown (snd (createNext_clear h file m w)) = shown w"
    and "clock (snd (createNext_clear h file m w)) = clock w"
    and "modifiedFiles (snd (createNext_clear h file m w)) = modifiedFiles w"
  using assms
  by (simp_all add: createNext_clear_def clearRecurrenceRule_def processFrontMatter_def reindex_def
        logger_warn_def clearedNote_def Let_def)

lemma createNext_spawn_ok:
  assumes src: "vault w (path file) = Some n" and free: "vault w tgt = None"
    and io: "\<not> fails h OpRead (path file)" "\<not> fails h OpCreate tgt" "\<not> fails h OpResolve tgt"
            "\<not> fails h OpPatch tgt" "\<not> fails h OpPatch (path file)"
  shows "fst (createNext_spawn h cfg file d (stripDateSuffix (basename file)) nm tgt w) = True"
    and "vault (snd (createNext_spawn h cfg file d (stripDateSuffix (basename file)) nm tgt w)) =
           (vault w)(tgt \<mapsto> successorNote h cfg file d n, path file \<mapsto> clearedNote n)"
    and "cache (snd (createNext_spawn h cfg file d (stripDateSuffix (basename file)) nm tgt w)) =
           (if autoIndex h
            then (cache w)(tgt \<mapsto> frontmatter (successorNote h cfg file d n),
                           path file \<mapsto> frontmatter (clearedNote n))
            else cache w)"
    and "console (snd (createNext_spawn h cfg file d (stripDateSuffix (basename file)) nm tgt w)) = console w"
    and "notices (snd (createNext_spawn h cfg file d (stripDateSuffix (basename file)) nm tgt w)) =
           notices w @ [''Created next recurrence: '' @ nm]"
    and "shown (snd (createNext_spawn h cfg file d (stripDateSuffix (basename file)) nm tgt w)) = shown w"
    and "clock (snd (createNext_spawn h cfg file d (stripDateSuffix (basename file)) nm tgt w)) = clock w"
    and "modifiedFiles (snd (createNext_spawn h cfg file d (stripDateSuffix (basename file)) nm tgt w)) =
           modifiedFiles w"
proof -
  have ne: "tgt \<noteq> path file" using src free by auto
  show "fst (createNext_spawn h cfg file d (stripDateSuffix (basename file)) nm tgt w) = True"
    and "vault (snd (createNext_spawn h cfg file d (stripDateSuffix (basename file)) nm tgt w)) =
           (vault w)(tgt \<mapsto> successorNote h cfg file d n, path file \<mapsto> clearedNote n)"
    and "cache (snd (createNext_spawn h cfg file d (stripDateSuffix (basename file)) nm tgt w)) =
           (if autoIndex h
            then (cache w)(tgt \<mapsto> frontmatter (successorNote h cfg file d n),
                           path file \<mapsto> frontmatter (clearedNote n))
            else cache w)"
    and "console (snd (createNext_spawn h cfg file d (stripDateSuffix (basename file)) nm tgt w)) = console w"
    and "notices (snd (createNext_spawn h cfg file d (stripDateSuffix (basename file)) nm tgt w)) =
           notices w @ [''Created next recurrence: '' @ nm]"
    and "shown (snd (createNext_spawn h cfg file d (stripDateSuffix (basename file)) nm tgt w)) = shown w"
    and "clock (snd (createNext_spawn h cfg file d (stripDateSuffix (basename file)) nm tgt w)) = clock w"
    and "modifiedFiles (snd (createNext_spawn h cfg file d (stripDateSuffix (basename file)) nm tgt w)) =
           modifiedFiles w"
    using src free io ne
    by (simp_all add: createNext_spawn_def vault_read_def vault_create_def isTFile_def
          processFrontMatter_def clearRecurrenceRule_def reindex_def Notice_def Let_def
          successorNote_def clearedNote_def)
qed

text \<open>
  Claim C6, as the code has it. Let the frontmatter carry a rule for which
  \<open>getNextOccurrence\<close> returns \<open>null\<close>, let the source exist and its patch not fail. Then
  \<open>createNextRecurrenceInstance\<close> reports \<open>true\<close>; the vault afterwards is the vault
  before with both rule fields removed from the source, so no file is created; and
  the console gains the warning exactly when logging is enabled.
\<close>

theorem uncomputable_next_clears_rule:
  assumes rule: "ruleOf fmatter = Some rule" "truthy rule"
    and none: "fst (getNextOccurrence h rule (fmatter ''scheduled'') w) = None"
    and src: "vault w (path file) = Some n"
    and io: "\<not> fails h OpPatch (path file)"
  shows "fst (createNextRecurrenceInstance h cfg file fmatter carry w) = True \<and>
         vault (snd (createNextRecurrenceInstance h cfg file fmatter carry w)) =
           (vault w)(path file \<mapsto> clearedNote n) \<and>
         console (snd (createNextRecurrenceInstance h cfg file fmatter carry w)) =
           console (snd (getNextOccurrence h rule (fmatter ''scheduled'') w)) @
           (if loggingEnabled w
            then [(WarnLevel, ''[TPS GCM] Could not calculate next recurrence date'')] else [])"
proof -
  obtain w1 where g: "getNextOccurrence h rule (fmatter ''scheduled'') w = (None, w1)"
    using none by (cases "getNextOccurrence h rule (fmatter ''scheduled'') w") auto
  have v1: "vault w1 = vault w" and l1: "loggingEnabled w1 = loggingEnabled w"
    using getNextOccurrence_fields(1,6)[of h rule "fmatter ''scheduled''" w] g by auto
  have src1: "vault w1 (path file) = Some n" using src v1 by simp
  show ?thesis
    using createNext_clear_ok(1,2,4)[OF src1 io] g v1 l1
    by (simp add: createNext_unfold[OF rule])
qed

text \<open>
  C6 at the example with logging enabled: the rule \<open>garbage\<close> leaves an error entry of
  the evaluation and the warning.
\<close>

theorem uncomputable_next_clears_rule_witness:
  "ruleOf fmGarbage = Some (JStr ''garbage'') \<and> truthy (JStr ''garbage'') \<and>
   fst (getNextOccurrence host0 (JStr ''garbage'') (fmGarbage ''scheduled'')
          (worldGarbage\<lparr>loggingEnabled := True\<rparr>)) = None \<and>
   vault (worldGarbage\<lparr>loggingEnabled := True\<rparr>) (path file0) = Some noteGarbage \<and>
   \<not> fails host0 OpPatch (path file0) \<and>
   fst (createNextRecurrenceInstance host0 cfg0 file0 fmGarbage None
          (worldGarbage\<lparr>loggingEnabled := True\<rparr>)) = True \<and>
   vault (snd (createNextRecurrenceInstance host0 cfg0 file0 fmGarbage None
          (worldGarbage\<lparr>loggingEnabled := True\<rparr>))) =
     (vault (worldGarbage\<lparr>loggingEnabled := True\<rparr>))(path file0 \<mapsto> clearedNote noteGarbage) \<and>
   console (snd (createNextRecurrenceInstance host0 cfg0 file0 fmGarbage None
          (worldGarbage\<lparr>loggingEnabled := True\<rparr>))) =
     [(ErrorLevel, ''[TPS GCM] Failed to calculate next recurrence:''),
      (WarnLevel, ''[TPS GCM] Could not calculate next recurrence date'')]"
proof -
  let ?w = "worldGarbage\<lparr>loggingEnabled := True\<rparr>"
  have src: "vault ?w (path file0) = Some noteGarbage" by (simp add: worldGarbage_def file0_def)
  have io: "\<not> fails host0 OpPatch (path file0)" by (simp add: host0_def)
  have lg: "loggingEnabled ?w" by simp
  have cons: "console (snd (getNextOccurrence host0 (JStr ''garbage'') (fmGarbage ''scheduled'') ?w))
     = [(ErrorLevel, ''[TPS GCM] Failed to calculate next recurrence:'')]"
    by (simp add: getNextOccurrence_def getNextOccurrence_try_def host0_def fmGarbage_def
          logger_error_def worldGarbage_def world0_def)
  note t = uncomputable_next_clears_rule[OF ex_garbage(1,2) ex_garbage(3)[of ?w] src io, of cfg0 None]
  show ?thesis using t ex_garbage(1,2) ex_garbage(3)[of ?w] src io cons lg by simp
qed

text \<open>
  Claim C6 says that a warning is logged. With logging disabled, which is the default,
  the rule \<open>garbage\<close> is cleared and \<open>true\<close> is reported while the console stays empty.
\<close>

theorem uncomputable_next_silent_counterexample:
  "hasRule fmGarbage \<and> loggingEnabled worldGarbage = False \<and>
   fst (getNextOccurrence host0 (JStr ''garbage'') (fmGarbage ''scheduled'') worldGarbage) = None \<and>
   fst (createNextRecurrenceInstance host0 cfg0 file0 fmGarbage None worldGarbage) = True \<and>
   console (snd (createNextRecurrenceInstance host0 cfg0 file0 fmGarbage None worldGarbage)) = []"
  by (simp add: ex_garbage)
     (simp add: ex_defs hasRule_def truthy_prop_def createNextRecurrenceInstance_def js_or_def
        getNextOccurrence_def getNextOccurrence_try_def logger_error_def createNext_clear_def
        logger_warn_def clearRecurrenceRule_def processFrontMatter_def reindex_def Let_def)


lemma getNextOccurrence_Some:
  assumes "fst (getNextOccurrence h r c w) = Some d"
  shows "getNextOccurrence h r c w = (Some d, w)"
  using assms by (auto simp: getNextOccurrence_def split: sum.splits)

lemma clearedNote_twice [simp]: "clearedNote (clearedNote n) = clearedNote n"
  by (simp add: clearedNote_def)




text \<open>
  Claim C3, as the code has it. Assume the evaluator's \<open>after(d, false)\<close> is strict.
  For a scheduled value that parses to the valid date \<open>D\<close>, the result of
  \<open>getNextOccurrence\<close> is what the evaluator returns when asked, with the rule's \<open>dtstart\<close>
  set to \<open>D\<close>, for the first occurrence after \<open>D\<close>, exclusive; a date returned is strictly
  greater than \<open>D\<close>. For a scheduled value that is absent (or falsy), the same holds with
  the current time in place of \<open>D\<close>: now is the anchor. \<open>getNextOccurrence\<close> never throws:
  an error of the parser or of the evaluator becomes the result \<open>null\<close>, and the message
  goes to \<open>logger.error\<close>, which writes an error-level entry to the console when logging is
  enabled and nothing otherwise; without an error the state is unchanged.
\<close>

theorem next_occurrence_after_anchor:
  assumes strict: "afterIsStrict h"
  shows "(\<forall>v D. truthy v \<and> new_Date h v = Valid D \<longrightarrow>
            getNextOccurrence h rule (Some v) w =
              (case RRule_parseString h rule of
                 Inl e \<Rightarrow>
                   (None,
                    if loggingEnabled w
                    then w\<lparr>console := console w @
                              [(ErrorLevel, ''[TPS GCM] Failed to calculate next recurrence:'')]\<rparr>
                    else w)
               | Inr opts \<Rightarrow>
                   (case RRule_after h (opts\<lparr>dtstart := Some (Valid D)\<rparr>) (Valid D) False of
                      Inl e \<Rightarrow>
                        (None,
                         if loggingEnabled w
                         then w\<lparr>console := console w @
                                   [(ErrorLevel, ''[TPS GCM] Failed to calculate next recurrence:'')]\<rparr>
                         else w)
                    | Inr nextDate \<Rightarrow> (nextDate, w))) \<and>
            (\<forall>r. fst (getNextOccurrence h rule (Some v) w) = Some r \<longrightarrow> D < r)) \<and>
         (\<forall>currentDate. \<not> truthy_prop currentDate \<longrightarrow>
            getNextOccurrence h rule currentDate w =
              (case RRule_parseString h rule of
                 Inl e \<Rightarrow>
                   (None,
                    if loggingEnabled w
                    then w\<lparr>console := console w @
                              [(ErrorLevel, ''[TPS GCM] Failed to calculate next recurrence:'')]\<rparr>
                    else w)
               | Inr opts \<Rightarrow>
                   (case RRule_after h (opts\<lparr>dtstart := Some (Valid (clock w))\<rparr>)
                           (Valid (clock w)) False of
                      Inl e \<Rightarrow>
                        (None,
                         if loggingEnabled w
                         then w\<lparr>console := console w @
                                   [(ErrorLevel, ''[TPS GCM] Failed to calculate next recurrence:'')]\<rparr>
                         else w)
                    | Inr nextDate \<Rightarrow> (nextDate, w))) \<and>
            (\<forall>r. fst (getNextOccurrence h rule currentDate w) = Some r \<longrightarrow> clock w < r))"
proof (intro conjI allI impI)
  fix v D
  assume a: "truthy v \<and> new_Date h v = Valid D"
  then show "getNextOccurrence h rule (Some v) w =
              (case RRule_parseString h rule of
                 Inl e \<Rightarrow>
                   (None,
                    if loggingEnabled w
                    then w\<lparr>console := console w @
                              [(ErrorLevel, ''[TPS GCM] Failed to calculate next recurrence:'')]\<rparr>
                    else w)
               | Inr opts \<Rightarrow>
                   (case RRule_after h (opts\<lparr>dtstart := Some (Valid D)\<rparr>) (Valid D) False of
                      Inl e \<Rightarrow>
                        (None,
                         if loggingEnabled w
                         then w\<lparr>console := console w @
                                   [(ErrorLevel, ''[TPS GCM] Failed to calculate next recurrence:'')]\<rparr>
                         else w)
                    | Inr nextDate \<Rightarrow> (nextDate, w)))"
    by (simp add: getNextOccurrence_def getNextOccurrence_try_def logger_error_def Let_def
          split: sum.splits)
next
  fix v D r
  assume a: "truthy v \<and> new_Date h v = Valid D"
    and r: "fst (getNextOccurrence h rule (Some v) w) = Some r"
  then obtain opts where "RRule_after h opts (Valid D) False = Inr (Some r)"
    by (auto simp: getNextOccurrence_def getNextOccurrence_try_def Let_def split: sum.splits)
  then show "D < r" using strict by (auto simp: afterIsStrict_def)
next
  fix currentDate
  assume "\<not> truthy_prop currentDate"
  then show "getNextOccurrence h rule currentDate w =
              (case RRule_parseString h rule of
                 Inl e \<Rightarrow>
                   (None,
                    if loggingEnabled w
                    then w\<lparr>console := console w @
                              [(ErrorLevel, ''[TPS GCM] Failed to calculate next recurrence:'')]\<rparr>
                    else w)
               | Inr opts \<Rightarrow>
                   (case RRule_after h (opts\<lparr>dtstart := Some (Valid (clock w))\<rparr>)
                           (Valid (clock w)) False of
                      Inl e \<Rightarrow>
                        (None,
                         if loggingEnabled w
                         then w\<lparr>console := console w @
                                   [(ErrorLevel, ''[TPS GCM] Failed to calculate next recurrence:'')]\<rparr>
                         else w)
                    | Inr nextDate \<Rightarrow> (nextDate, w)))"
    by (cases currentDate)
       (simp_all add: getNextOccurrence_def getNextOccurrence_try_def logger_error_def Let_def
          truthy_prop_def split: sum.splits)
next
  fix currentDate r
  assume "\<not> truthy_prop currentDate"
    and "fst (getNextOccurrence h rule currentDate w) = Some r"
  then obtain opts where "RRule_after h opts (Valid (clock w)) False = Inr (Some r)"
    by (cases currentDate)
       (auto simp: getNextOccurrence_def getNextOccurrence_try_def Let_def truthy_prop_def
          split: sum.splits)
  then show "clock w < r" using strict by (auto simp: afterIsStrict_def)
qed

text \<open>
  C3 at the example: the weekly rule anchored at 2024-01-01 yields 2024-01-08, and with
  no scheduled value it yields a week from the current time.
\<close>

theorem next_occurrence_after_anchor_witness:
  "afterIsStrict host0 \<and> truthy (JStr ''2024-01-01'') \<and>
   new_Date host0 (JStr ''2024-01-01'') = Valid 1704067200000 \<and>
   getNextOccurrence host0 (JStr ''FREQ=WEEKLY'') (Some (JStr ''2024-01-01'')) world0
     = (Some 1704672000000, world0) \<and>
   (1704067200000::int) < 1704672000000 \<and>
   \<not> truthy_prop None \<and> clock world0 = 1704100000000 \<and>
   getNextOccurrence host0 (JStr ''FREQ=WEEKLY'') None world0 = (Some 1704704800000, world0) \<and>
   clock world0 < 1704704800000"
proof -
  have strict: "afterIsStrict host0"
    by (auto simp: afterIsStrict_def host0_def split: jsdate.splits)
  have a: "truthy (JStr ''2024-01-01'')" "new_Date host0 (JStr ''2024-01-01'') = Valid 1704067200000"
    by (simp_all add: host0_def)
  have n: "\<not> truthy_prop None" "clock world0 = 1704100000000"
    by (simp_all add: truthy_prop_def world0_def)
  have p: "RRule_parseString host0 (JStr ''FREQ=WEEKLY'')
             = Inr \<lparr>dtstart = None, parts = [(''FREQ'', ''WEEKLY'')]\<rparr>"
    "RRule_after host0 opts (Valid x) False = Inr (Some (x + 604800000))" for opts x
    by (simp_all add: host0_def)
  note t = next_occurrence_after_anchor[OF strict, of "JStr ''FREQ=WEEKLY''" world0]
  from t a have b: "getNextOccurrence host0 (JStr ''FREQ=WEEKLY'') (Some (JStr ''2024-01-01'')) world0
     = (Some 1704672000000, world0)"
    by (simp add: p)
  from t n have c: "getNextOccurrence host0 (JStr ''FREQ=WEEKLY'') None world0
     = (Some 1704704800000, world0)"
    by (simp add: p)
  from t a b have d: "(1704067200000::int) < 1704672000000" by simp
  from t n c have e: "clock world0 < 1704704800000" by simp
  show ?thesis using strict a b c d e n by blast
qed

text \<open>
  Claim C3 speaks of a logged warning. For the rule \<open>garbage\<close> the result is \<open>null\<close>,
  but with logging disabled (the default) the console is left as it was; and with
  logging enabled the entry written is of error level, not a warning.
\<close>

theorem next_occurrence_log_counterexample:
  "fst (getNextOccurrence host0 (JStr ''garbage'') None world0) = None \<and>
   loggingEnabled world0 = False \<and>
   console (snd (getNextOccurrence host0 (JStr ''garbage'') None world0)) = console world0 \<and>
   console (snd (getNextOccurrence host0 (JStr ''garbage'') None (world0\<lparr>loggingEnabled := True\<rparr>)))
     = [(ErrorLevel, ''[TPS GCM] Failed to calculate next recurrence:'')]"
  by (simp add: getNextOccurrence_def getNextOccurrence_try_def host0_def world0_def logger_error_def)

text \<open>
  Claim C7. Let \<open>markAsModified(p)\<close> run at time \<open>T\<close> with window \<open>W\<close>
  (\<open>sessionDuration\<close>). A query at time \<open>t \<le> T + W\<close> returns \<open>true\<close> and leaves the
  tracker as it is; a query at time \<open>t > T + W\<close> returns \<open>false\<close> and deletes the entry.
  A path without an entry yields \<open>false\<close>. The time \<open>T\<close> is a reading of \<open>Date.now()\<close>
  other than 0 (the instant of the epoch itself), since the lookup reads a stored 0 as
  a missing entry.
\<close>

theorem suppression_window:
  assumes "T \<noteq> 0"
  shows "(\<forall>t. wasRecentlyModified p ((markAsModified p (w\<lparr>clock := T\<rparr>))\<lparr>clock := t\<rparr>) =
           (if t \<le> T + sessionDuration w
            then (True, (markAsModified p (w\<lparr>clock := T\<rparr>))\<lparr>clock := t\<rparr>)
            else (False, w\<lparr>clock := t, modifiedFiles := (modifiedFiles w)(p := None)\<rparr>))) \<and>
         (\<forall>u. modifiedFiles u p = None \<longrightarrow> wasRecentlyModified p u = (False, u))"
  using assms by (auto simp: wasRecentlyModified_def markAsModified_def Let_def)

text \<open>
  C7 at the example: a window of five minutes, queried at its last millisecond and one
  millisecond later.
\<close>

theorem suppression_window_witness:
  "(1704100000000::int) \<noteq> 0 \<and>
   fst (wasRecentlyModified ''a.md''
         ((markAsModified ''a.md'' (world0\<lparr>clock := 1704100000000\<rparr>))\<lparr>clock := 1704100300000\<rparr>)) \<and>
   \<not> fst (wasRecentlyModified ''a.md''
         ((markAsModified ''a.md'' (world0\<lparr>clock := 1704100000000\<rparr>))\<lparr>clock := 1704100300001\<rparr>)) \<and>
   modifiedFiles (snd (wasRecentlyModified ''a.md''
         ((markAsModified ''a.md'' (world0\<lparr>clock := 1704100000000\<rparr>))\<lparr>clock := 1704100300001\<rparr>)))
      ''a.md'' = None \<and>
   modifiedFiles world0 ''a.md'' = None \<and>
   wasRecentlyModified ''a.md'' world0 = (False, world0)"
proof -
  have nz: "(1704100000000::int) \<noteq> 0" by simp
  have dur: "sessionDuration world0 = 300000" and empty: "modifiedFiles world0 ''a.md'' = None"
    by (simp_all add: world0_def)
  note t = suppression_window[OF nz, of "''a.md''" world0]
  from t[THEN conjunct1, THEN spec, of 1704100300000] dur
  have a: "fst (wasRecentlyModified ''a.md''
         ((markAsModified ''a.md'' (world0\<lparr>clock := 1704100000000\<rparr>))\<lparr>clock := 1704100300000\<rparr>))"
    by simp
  from t[THEN conjunct1, THEN spec, of 1704100300001] dur
  have b: "\<not> fst (wasRecentlyModified ''a.md''
         ((markAsModified ''a.md'' (world0\<lparr>clock := 1704100000000\<rparr>))\<lparr>clock := 1704100300001\<rparr>))"
    "modifiedFiles (snd (wasRecentlyModified ''a.md''
         ((markAsModified ''a.md'' (world0\<lparr>clock := 1704100000000\<rparr>))\<lparr>clock := 1704100300001\<rparr>)))
      ''a.md'' = None"
    by simp_all
  from t[THEN conjunct2, THEN spec, of world0] empty
  have c: "wasRecentlyModified ''a.md'' world0 = (False, world0)" by simp
  show ?thesis using nz a b empty c by blast
qed

section \<open>Prompts and the suppression tracker\<close>

lemma wasRecentlyModified_again:
  "\<not> fst (wasRecentlyModified p w) \<Longrightarrow>
   wasRecentlyModified p (snd (wasRecentlyModified p w)) = (False, snd (wasRecentlyModified p w))"
  by (auto simp: wasRecentlyModified_def Let_def split: option.splits if_splits)

lemma promptForFrontmatterChange_cancel:
  assumes "\<not> fst (wasRecentlyModified (path file) w)"
    and "user_answer h (length (shown w)) = Cancel"
  shows "promptForFrontmatterChange_with split h file d w =
           Some (Cancel, (snd (wasRecentlyModified (path file) w))\<lparr>shown := shown w @ [(d, path file)]\<rparr>)"
  using assms
  by (simp add: promptForFrontmatterChange_with_def promptUser_def split_beta Let_def)

lemma promptForFrontmatterChange_recent:
  assumes "fst (wasRecentlyModified (path file) w)"
  shows "promptForFrontmatterChange_with split h file d w =
           Some (UpdateAll, snd (wasRecentlyModified (path file) w))"
  using assms by (simp add: promptForFrontmatterChange_with_def split_beta)

text \<open>
  Claim C9, as the code has it. When \<open>promptForFrontmatterChange\<close> raises a prompt and
  the user cancels, it returns cancel, the vault is unchanged, and the tracker holds what
  the lookup left: the path is not marked, so an immediate retry is not suppressed. The
  mutation is suppressed: an \<open>updateFrontmatter\<close> whose first file raises this prompt by
  changing a field other than the status returns 0 in that same state.
\<close>

theorem cancel_leaves_tracker:
  assumes "\<not> fst (wasRecentlyModified (path file) w)"
    and "user_answer h (length (shown w)) = Cancel"
  shows "\<exists>w'. promptForFrontmatterChange n h cfg file d w = Some (Cancel, w') \<and>
              modifiedFiles w' = modifiedFiles (snd (wasRecentlyModified (path file) w)) \<and>
              vault w' = vault w \<and>
              shown w' = shown w @ [(d, path file)] \<and>
              \<not> fst (wasRecentlyModified (path file) w') \<and>
              (\<forall>fmatter updates files.
                 enableRecurrence cfg \<and> promptOnRecurrenceEdit cfg \<and>
                 cache w (path file) = Some fmatter \<and> hasRule fmatter \<and> \<not> statusDone fmatter \<and>
                 ''status'' \<notin> set (map fst updates) \<and> d = changeDescOf (map fst updates) \<longrightarrow>
                 updateFrontmatter n h cfg (file # files) updates w = Some (0, w'))"
proof -
  let ?w1 = "snd (wasRecentlyModified (path file) w)"
  let ?w' = "?w1\<lparr>shown := shown w @ [(d, path file)]\<rparr>"
  have p: "promptForFrontmatterChange_with split h file d w = Some (Cancel, ?w')" for split
    using assms by (rule promptForFrontmatterChange_cancel)
  have f1: "promptForFrontmatterChange n h cfg file d w = Some (Cancel, ?w')"
    unfolding promptForFrontmatterChange_def by (rule p)
  have f2: "\<not> fst (wasRecentlyModified (path file) ?w')"
    using wasRecentlyModified_again[OF assms(1)]
    by (auto simp: wasRecentlyModified_def Let_def split: option.splits if_splits)
  have f3: "updateFrontmatter n h cfg (file # files) updates w = Some (0, ?w')"
    if "enableRecurrence cfg \<and> promptOnRecurrenceEdit cfg \<and>
        cache w (path file) = Some fmatter \<and> hasRule fmatter \<and> \<not> statusDone fmatter \<and>
        ''status'' \<notin> set (map fst updates) \<and> d = changeDescOf (map fst updates)"
    for fmatter updates files
  proof -
    have "updateFrontmatter_prompts split h updates (file # files) w = Some (True, ?w')" for split
      using that p[of split] by (simp add: Let_def)
    then show ?thesis using that
      by (cases n) (simp_all add: updateFrontmatter_with_def)
  qed
  show ?thesis
  proof (intro exI[of _ ?w'] conjI allI impI)
    show "promptForFrontmatterChange n h cfg file d w = Some (Cancel, ?w')" by (rule f1)
    show "modifiedFiles ?w' = modifiedFiles ?w1" by simp
    show "vault ?w' = vault w" by simp
    show "shown ?w' = shown w @ [(d, path file)]" by simp
    show "\<not> fst (wasRecentlyModified (path file) ?w')" by (rule f2)
  next
    fix fmatter :: fm and updates :: "(string \<times> jsval) list" and files :: "tfile list"
    assume "enableRecurrence cfg \<and> promptOnRecurrenceEdit cfg \<and>
        cache w (path file) = Some fmatter \<and> hasRule fmatter \<and> \<not> statusDone fmatter \<and>
        ''status'' \<notin> set (map fst updates) \<and> d = changeDescOf (map fst updates)"
    then show "updateFrontmatter n h cfg (file # files) updates w = Some (0, ?w')" by (rule f3)
  qed
qed

text \<open>
  C9 at the example: the prompt for a priority change of the weekly task, cancelled.
\<close>

theorem cancel_leaves_tracker_witness:
  "\<not> fst (wasRecentlyModified (path file0) world0) \<and>
   user_answer host0 (length (shown world0)) = Cancel \<and>
   enableRecurrence cfg0 \<and> promptOnRecurrenceEdit cfg0 \<and>
   cache world0 (path file0) = Some fm0 \<and> hasRule fm0 \<and> \<not> statusDone fm0 \<and>
   ''status'' \<notin> set (map fst [(''priority'', JStr ''high'')]) \<and>
   ''changing the priority of'' = changeDescOf (map fst [(''priority'', JStr ''high'')]) \<and>
   (\<exists>w'. promptForFrontmatterChange 1 host0 cfg0 file0 ''changing the priority of'' world0
           = Some (Cancel, w') \<and>
         modifiedFiles w' = modifiedFiles world0 \<and> vault w' = vault world0 \<and>
         shown w' = [(''changing the priority of'', path file0)] \<and>
         \<not> fst (wasRecentlyModified (path file0) w') \<and>
         updateFrontmatter 1 host0 cfg0 [file0] [(''priority'', JStr ''high'')] world0 = Some (0, w'))"
proof -
  have a: "\<not> fst (wasRecentlyModified (path file0) world0)"
    by (simp add: wasRecentlyModified_def world0_def)
  have b: "user_answer host0 (length (shown world0)) = Cancel" by (simp add: host0_def)
  have c: "snd (wasRecentlyModified (path file0) world0) = world0" "shown world0 = []"
    by (simp_all add: wasRecentlyModified_def world0_def)
  have d: "enableRecurrence cfg0 \<and> promptOnRecurrenceEdit cfg0 \<and>
     cache world0 (path file0) = Some fm0 \<and> hasRule fm0 \<and> \<not> statusDone fm0 \<and>
     ''status'' \<notin> set (map fst [(''priority'', JStr ''high'')]) \<and>
     ''changing the priority of'' = changeDescOf (map fst [(''priority'', JStr ''high'')])"
    by (simp add: cfg0_def world0_def file0_def fm0_def hasRule_def truthy_prop_def statusDone_def
          changeDescOf_def)
  from cancel_leaves_tracker[OF a b, of 1 cfg0 "''changing the priority of''"]
  obtain w' where w': "promptForFrontmatterChange 1 host0 cfg0 file0 ''changing the priority of'' world0
           = Some (Cancel, w')"
    "modifiedFiles w' = modifiedFiles (snd (wasRecentlyModified (path file0) world0))"
    "vault w' = vault world0" "shown w' = shown world0 @ [(''changing the priority of'', path file0)]"
    "\<not> fst (wasRecentlyModified (path file0) w')"
    "\<forall>fmatter updates files.
       enableRecurrence cfg0 \<and> promptOnRecurrenceEdit cfg0 \<and>
       cache world0 (path file0) = Some fmatter \<and> hasRule fmatter \<and> \<not> statusDone fmatter \<and>
       ''status'' \<notin> set (map fst updates) \<and>
       ''changing the priority of'' = changeDescOf (map fst updates) \<longrightarrow>
       updateFrontmatter 1 host0 cfg0 (file0 # files) updates world0 = Some (0, w')"
    by blast
  from w'(6)[rule_format, OF d, of "[]"]
  have u: "updateFrontmatter 1 host0 cfg0 [file0] [(''priority'', JStr ''high'')] world0 = Some (0, w')" .
  show ?thesis using a b d w'(1,3,5) w'(2,4)[unfolded c] u
    by (intro conjI exI[of _ w']) simp_all
qed

text \<open>
  Claim C9 as stated does not hold: after cancel the path has no entry in the tracker,
  the lookup for it returns \<open>false\<close>, and a second call opens a second prompt.
\<close>

theorem cancel_not_marked_counterexample:
  "user_answer host0 (length (shown world0)) = Cancel \<and>
   promptForFrontmatterChange 1 host0 cfg0 file0 ''updating'' world0 \<noteq> None \<and>
   fst (the (promptForFrontmatterChange 1 host0 cfg0 file0 ''updating'' world0)) = Cancel \<and>
   modifiedFiles (snd (the (promptForFrontmatterChange 1 host0 cfg0 file0 ''updating'' world0)))
     (path file0) = None \<and>
   \<not> fst (wasRecentlyModified (path file0)
            (snd (the (promptForFrontmatterChange 1 host0 cfg0 file0 ''updating'' world0)))) \<and>
   shown (snd (the (promptForFrontmatterChange 1 host0 cfg0 file0 ''updating''
            (snd (the (promptForFrontmatterChange 1 host0 cfg0 file0 ''updating'' world0))))))
     = [(''updating'', ''Tasks/Water plants.md''), (''updating'', ''Tasks/Water plants.md'')]"
  by (simp add: ex_defs promptForFrontmatterChange_def promptForFrontmatterChange_with_def
        wasRecentlyModified_def promptUser_def Let_def)

text \<open>
  Claim C8, as the code has it. For a note whose indexed status is \<open>complete\<close> or
  \<open>wont-do\<close>, neither \<open>handleFileFocus\<close> nor \<open>handleFileModification\<close> opens a prompt,
  whatever the completion set is configured to contain: both return after the tracker
  lookup, with the list of prompts unchanged.
\<close>

theorem done_notes_not_prompted:
  assumes "cache w (path file) = Some fmatter" and "statusDone fmatter"
  shows "handleFileFocus n h cfg file w = Some (snd (wasRecentlyModified (path file) w)) \<and>
         handleFileModification n h cfg file w = Some (snd (wasRecentlyModified (path file) w)) \<and>
         shown (snd (wasRecentlyModified (path file) w)) = shown w"
  using assms
  by (simp add: handleFileFocus_def handleFileFocus_with_def handleFileModification_def
        handleFileModification_with_def split_beta)

text \<open>
  C8 at the example: the weekly task with status \<open>complete\<close>, under a completion set
  that does not contain \<open>complete\<close>.
\<close>

theorem done_notes_not_prompted_witness:
  "cache worldComplete (path file0) = Some (fm0(''status'' \<mapsto> JStr ''complete'')) \<and>
   statusDone (fm0(''status'' \<mapsto> JStr ''complete'')) \<and>
   handleFileFocus 1 host0 cfgDone file0 worldComplete = Some worldComplete \<and>
   handleFileModification 1 host0 cfgDone file0 worldComplete = Some worldComplete \<and>
   shown worldComplete = []"
proof -
  have c: "cache worldComplete (path file0) = Some (fm0(''status'' \<mapsto> JStr ''complete''))"
    by (simp add: worldComplete_def file0_def)
  have d: "statusDone (fm0(''status'' \<mapsto> JStr ''complete''))" by (simp add: statusDone_def)
  have e: "snd (wasRecentlyModified (path file0) worldComplete) = worldComplete"
    by (simp add: wasRecentlyModified_def worldComplete_def world0_def)
  have s: "shown worldComplete = []" by (simp add: worldComplete_def world0_def)
  from done_notes_not_prompted[OF c d, of 1 host0 cfgDone] e s c d show ?thesis by simp
qed

text \<open>
  Claim C8 as stated does not hold: with the completion set configured as \<open>done\<close>, a
  recurring note with status \<open>done\<close> is prompted by both handlers, which compare the
  status with the two literals only.
\<close>

theorem configured_terminal_prompted_counterexample:
  "cache worldDone (path file0) = Some (fm0(''status'' \<mapsto> JStr ''done'')) \<and>
   ''done'' \<in> set (recurrenceStatusesOf cfgDone) \<and>
   shown worldDone = [] \<and>
   handleFileFocus 1 host0 cfgDone file0 worldDone \<noteq> None \<and>
   shown (the (handleFileFocus 1 host0 cfgDone file0 worldDone)) = [(''focus'', ''Tasks/Water plants.md'')] \<and>
   handleFileModification 1 host0 cfgDone file0 worldDone \<noteq> None \<and>
   shown (the (handleFileModification 1 host0 cfgDone file0 worldDone))
     = [(''editing'', ''Tasks/Water plants.md'')]"
  by (simp add: ex_defs recurrenceStatusesOf_def handleFileFocus_def handleFileFocus_with_def
        handleFileModification_def handleFileModification_with_def wasRecentlyModified_def
        hasRule_def truthy_prop_def statusDone_def promptOnFocus_with_def
        promptForContentChange_with_def promptUser_def markAsModified_def Let_def)

section \<open>Cancelling a bulk edit\<close>

lemma applyToFiles_loop_fields:
  "clock (snd (applyToFiles_loop h files cb c w)) = clock w \<and>
   sessionDuration (snd (applyToFiles_loop h files cb c w)) = sessionDuration w \<and>
   shown (snd (applyToFiles_loop h files cb c w)) = shown w"
proof (induction files arbitrary: c w)
  case Nil
  show ?case by simp
next
  case (Cons f files)
  show ?case
  proof (cases "toLowerCase (extension f) = ''md''")
    case False
    then show ?thesis using Cons.IH by simp
  next
    case True
    show ?thesis
    proof (cases "processFrontMatter h (path f) (\<lambda>fm. cb fm f) (markFileAsModified (path f) w)")
      case (Inl e)
      then show ?thesis using True Cons.IH by (simp add: markFileAsModified_def)
    next
      case (Inr w2)
      then have "clock w2 = clock w" "sessionDuration w2 = sessionDuration w" "shown w2 = shown w"
        by (auto elim!: processFrontMatter_Inr simp: markFileAsModified_def)
      then show ?thesis using True Inr Cons.IH by simp
    qed
  qed
qed

lemma promptForFrontmatterChange_updateAll:
  assumes "\<not> fst (wasRecentlyModified (path file) w)"
    and "user_answer h (length (shown w)) = UpdateAll"
  shows "promptForFrontmatterChange_with split h file d w =
           Some (UpdateAll, markAsModified (path file)
                   ((snd (wasRecentlyModified (path file) w))\<lparr>shown := shown w @ [(d, path file)]\<rparr>))"
  using assms
  by (simp add: promptForFrontmatterChange_with_def promptUser_def split_beta Let_def)

lemma updateFrontmatter_prompts_cancel:
  "\<forall>i<k. user_answer h (length (shown w) + i) = UpdateAll \<Longrightarrow>
   user_answer h (length (shown w) + k) = Cancel \<Longrightarrow>
   \<exists>b w'. updateFrontmatter_prompts split h updates files w = Some (b, w') \<and>
          vault w' = vault w \<and>
          (if b then length (shown w') = length (shown w) + k + 1
           else length (shown w') \<le> length (shown w) + k)"
proof (induction files arbitrary: w k)
  case Nil
  have "updateFrontmatter_prompts split h updates [] w = Some (False, w)" by simp
  then show ?case by (intro exI[of _ False] exI[of _ w]) simp
next
  case (Cons f files)
  let ?goal = "\<lambda>res. \<exists>b w'. res = Some (b, w') \<and> vault w' = vault w \<and>
          (if b then length (shown w') = length (shown w) + k + 1
           else length (shown w') \<le> length (shown w) + k)"
  have skip: "?goal (updateFrontmatter_prompts split h updates files w)"
    by (rule Cons.IH[OF Cons.prems])
  show ?case
  proof (cases "cache w (path f)")
    case None
    then have "updateFrontmatter_prompts split h updates (f # files) w =
               updateFrontmatter_prompts split h updates files w" by simp
    then show ?thesis using skip by (simp only:)
  next
    case (Some fmatter)
    show ?thesis
    proof (cases "hasRule fmatter \<and> \<not> statusDone fmatter \<and> ''status'' \<notin> set (map fst updates)")
      case False
      then have "updateFrontmatter_prompts split h updates (f # files) w =
               updateFrontmatter_prompts split h updates files w" using Some by (auto simp: Let_def)
      then show ?thesis using skip by (simp only:)
    next
      case True
      let ?d = "changeDescOf (map fst updates)"
      have eq: "updateFrontmatter_prompts split h updates (f # files) w =
                (case promptForFrontmatterChange_with split h f ?d w of
                   None \<Rightarrow> None
                 | Some (result, w1) \<Rightarrow>
                     if result = Cancel then Some (True, w1)
                     else updateFrontmatter_prompts split h updates files w1)"
        using Some True by (simp add: Let_def)
      show ?thesis
      proof (cases "fst (wasRecentlyModified (path f) w)")
        case recent: True
        let ?w1 = "snd (wasRecentlyModified (path f) w)"
        have s1: "shown ?w1 = shown w" by simp
        have "\<forall>i<k. user_answer h (length (shown ?w1) + i) = UpdateAll"
          "user_answer h (length (shown ?w1) + k) = Cancel"
          using Cons.prems by (simp_all only: s1)
        from Cons.IH[OF this] obtain b w' where
          r: "updateFrontmatter_prompts split h updates files ?w1 = Some (b, w')"
             "vault w' = vault w"
             "if b then length (shown w') = length (shown w) + k + 1
              else length (shown w') \<le> length (shown w) + k"
          by (auto split: if_splits)
        have "updateFrontmatter_prompts split h updates (f # files) w = Some (b, w')"
          unfolding eq using recent r(1) by (simp add: promptForFrontmatterChange_recent)
        then show ?thesis using r(2,3) by blast
      next
        case notrecent: False
        let ?w2 = "(snd (wasRecentlyModified (path f) w))\<lparr>shown := shown w @ [(?d, path f)]\<rparr>"
        show ?thesis
        proof (cases k)
          case 0
          then have c: "user_answer h (length (shown w)) = Cancel" using Cons.prems(2) by simp
          have "updateFrontmatter_prompts split h updates (f # files) w = Some (True, ?w2)"
            unfolding eq using notrecent c by (simp add: promptForFrontmatterChange_cancel)
          moreover have "vault ?w2 = vault w" "length (shown ?w2) = length (shown w) + k + 1"
            using 0 by simp_all
          ultimately show ?thesis by (intro exI[of _ True] exI[of _ ?w2]) simp
        next
          case (Suc k')
          then have u: "user_answer h (length (shown w)) = UpdateAll"
            using Cons.prems(1)[rule_format, of 0] by simp
          let ?w3 = "markAsModified (path f) ?w2"
          have len: "length (shown ?w3) = Suc (length (shown w))" by simp
          have "\<forall>i<k'. user_answer h (length (shown ?w3) + i) = UpdateAll"
          proof (intro allI impI)
            fix i assume "i < k'"
            then have "Suc i < k" using Suc by simp
            from Cons.prems(1)[rule_format, OF this] show "user_answer h (length (shown ?w3) + i) = UpdateAll"
              by (simp only: len) simp
          qed
          moreover have "user_answer h (length (shown ?w3) + k') = Cancel"
            using Cons.prems(2) Suc by (simp only: len) simp
          ultimately obtain b w' where
            r: "updateFrontmatter_prompts split h updates files ?w3 = Some (b, w')"
               "vault w' = vault ?w3"
               "if b then length (shown w') = length (shown ?w3) + k' + 1
                else length (shown w') \<le> length (shown ?w3) + k'"
            using Cons.IH[of k' ?w3] by blast
          have "updateFrontmatter_prompts split h updates (f # files) w = Some (b, w')"
            unfolding eq using notrecent u r(1) by (simp add: promptForFrontmatterChange_updateAll)
          moreover have "vault w' = vault w" using r(2) by simp
          moreover have "if b then length (shown w') = length (shown w) + k + 1
                else length (shown w') \<le> length (shown w) + k"
            using r(3) Suc by (cases b) (simp_all only: len, simp_all)
          ultimately show ?thesis by blast
        qed
      qed
    qed
  qed
qed

lemma tag_prompts_cancel:
  "\<forall>i<k. user_answer h (length (shown w) + i) = UpdateAll \<Longrightarrow>
   user_answer h (length (shown w) + k) = Cancel \<Longrightarrow>
   \<exists>b w'. tag_prompts split h d files w = Some (b, w') \<and>
          vault w' = vault w \<and>
          (if b then length (shown w') = length (shown w) + k + 1
           else length (shown w') \<le> length (shown w) + k)"
proof (induction files arbitrary: w)
  case Nil
  have "tag_prompts split h d [] w = Some (False, w)" by simp
  then show ?case by (intro exI[of _ False] exI[of _ w]) simp
next
  case (Cons f files)
  let ?goal = "\<lambda>res. \<exists>b w'. res = Some (b, w') \<and> vault w' = vault w \<and>
          (if b then length (shown w') = length (shown w) + k + 1
           else length (shown w') \<le> length (shown w) + k)"
  have skip: "?goal (tag_prompts split h d files w)"
    by (rule Cons.IH[OF Cons.prems])
  show ?case
  proof (cases "cache w (path f)")
    case None
    then have "tag_prompts split h d (f # files) w = tag_prompts split h d files w" by simp
    then show ?thesis using skip by (simp only:)
  next
    case (Some fmatter)
    show ?thesis
    proof (cases "hasRule fmatter \<and> fmatter ''status'' \<noteq> Some (JStr ''complete'')
               \<and> fmatter ''status'' \<noteq> Some (JStr ''wont-do'')")
      case False
      then have "tag_prompts split h d (f # files) w = tag_prompts split h d files w"
        using Some by auto
      then show ?thesis using skip by (simp only:)
    next
      case True
      have eq: "tag_prompts split h d (f # files) w =
                (case promptForFrontmatterChange_with split h f d w of
                   None \<Rightarrow> None
                 | Some (result, w1) \<Rightarrow> Some (result = Cancel, w1))"
        using Some True by simp
      show ?thesis
      proof (cases "fst (wasRecentlyModified (path f) w)")
        case recent: True
        let ?w1 = "snd (wasRecentlyModified (path f) w)"
        have "tag_prompts split h d (f # files) w = Some (False, ?w1)"
          unfolding eq using recent by (simp add: promptForFrontmatterChange_recent)
        moreover have "vault ?w1 = vault w" "shown ?w1 = shown w" by simp_all
        ultimately show ?thesis by (intro exI[of _ False] exI[of _ ?w1]) simp
      next
        case notrecent: False
        let ?w2 = "(snd (wasRecentlyModified (path f) w))\<lparr>shown := shown w @ [(d, path f)]\<rparr>"
        show ?thesis
        proof (cases k)
          case 0
          then have c: "user_answer h (length (shown w)) = Cancel" using Cons.prems(2) by simp
          have "tag_prompts split h d (f # files) w = Some (True, ?w2)"
            unfolding eq using notrecent c by (simp add: promptForFrontmatterChange_cancel)
          moreover have "vault ?w2 = vault w" "length (shown ?w2) = length (shown w) + k + 1"
            using 0 by simp_all
          ultimately show ?thesis by (intro exI[of _ True] exI[of _ ?w2]) simp
        next
          case (Suc k')
          then have u: "user_answer h (length (shown w)) = UpdateAll"
            using Cons.prems(1)[rule_format, of 0] by simp
          let ?w3 = "markAsModified (path f) ?w2"
          have "tag_prompts split h d (f # files) w = Some (False, ?w3)"
            unfolding eq using notrecent u by (simp add: promptForFrontmatterChange_updateAll)
          moreover have "vault ?w3 = vault w" "length (shown ?w3) \<le> length (shown w) + k"
            using Suc by simp_all
          ultimately show ?thesis by (intro exI[of _ False] exI[of _ ?w3]) simp
        qed
      qed
    qed
  qed
qed

lemma bulk_cancel:
  assumes phase: "\<exists>b w1. prompts = Some (b, w1) \<and> vault w1 = vault w \<and>
                    (if b then length (shown w1) = length (shown w) + k + 1
                     else length (shown w1) \<le> length (shown w) + k)"
  shows "\<exists>c w'. (if gate then
                   (case prompts of
                      None \<Rightarrow> None
                    | Some (cancelled, w1) \<Rightarrow>
                        if cancelled then Some (0, w1) else Some (applyToFiles h files cb w1))
                 else Some (applyToFiles h files cb w)) = Some (c, w') \<and>
           (length (shown w) + k < length (shown w') \<longrightarrow> c = 0 \<and> vault w' = vault w)"
proof -
  from phase obtain b w1 where p: "prompts = Some (b, w1)" "vault w1 = vault w"
    "if b then length (shown w1) = length (shown w) + k + 1
     else length (shown w1) \<le> length (shown w) + k" by blast
  have s: "shown (snd (applyToFiles h files cb u)) = shown u" for u
    by (simp add: applyToFiles_def applyToFiles_loop_fields)
  show ?thesis
  proof (cases gate)
    case False
    obtain c w' where r: "applyToFiles h files cb w = (c, w')" by (cases "applyToFiles h files cb w")
    then have "shown w' = shown w" using s[of w] by simp
    then show ?thesis using False r by simp
  next
    case True
    show ?thesis
    proof (cases b)
      case True
      then show ?thesis using \<open>gate\<close> p(1,2) by simp
    next
      case False
      obtain c w' where r: "applyToFiles h files cb w1 = (c, w')" by (cases "applyToFiles h files cb w1")
      then have "length (shown w') \<le> length (shown w) + k" using s[of w1] p(3) False by simp
      then show ?thesis using False \<open>gate\<close> p(1) r by simp
    qed
  qed
qed

lemma updateFrontmatter_prompts_append:
  "updateFrontmatter_prompts split h updates (pre @ post) w =
     (case updateFrontmatter_prompts split h updates pre w of
        None \<Rightarrow> None
      | Some (b, w1) \<Rightarrow>
          if b then Some (True, w1) else updateFrontmatter_prompts split h updates post w1)"
proof (induction pre arbitrary: w)
  case Nil
  show ?case by simp
next
  case (Cons f pre)
  show ?case
  proof (cases "cache w (path f)")
    case None
    then show ?thesis using Cons.IH[of w] by simp
  next
    case (Some fmatter)
    show ?thesis
    proof (cases "hasRule fmatter \<and> \<not> statusDone fmatter \<and> ''status'' \<notin> set (map fst updates)")
      case False
      then show ?thesis using Some Cons.IH[of w] by (auto simp: Let_def)
    next
      case True
      let ?d = "changeDescOf (map fst updates)"
      have eq: "updateFrontmatter_prompts split h updates (f # fs) w =
                (case promptForFrontmatterChange_with split h f ?d w of
                   None \<Rightarrow> None
                 | Some (result, w1) \<Rightarrow>
                     if result = Cancel then Some (True, w1)
                     else updateFrontmatter_prompts split h updates fs w1)" for fs
        using Some True by (simp add: Let_def)
      show ?thesis
      proof (cases "promptForFrontmatterChange_with split h f ?d w")
        case None
        then show ?thesis using eq[of "pre @ post"] eq[of pre] by simp
      next
        case (Some r)
        obtain result u where r: "r = (result, u)" by (cases r)
        show ?thesis
          using eq[of "pre @ post"] eq[of pre] Some r Cons.IH[of u] by simp
      qed
    qed
  qed
qed

lemma updateFrontmatter_prompts_keys:
  "map fst updates2 = map fst updates \<Longrightarrow>
   updateFrontmatter_prompts split h updates2 files w =
   updateFrontmatter_prompts split h updates files w"
proof (induction files arbitrary: w)
  case Nil
  show ?case by simp
next
  case (Cons f files)
  show ?case
  proof (cases "cache w (path f)")
    case None
    then show ?thesis using Cons.IH[OF Cons.prems, of w] by simp
  next
    case (Some fmatter)
    show ?thesis
    proof (cases "hasRule fmatter \<and> \<not> statusDone fmatter \<and> ''status'' \<notin> set (map fst updates)")
      case False
      then show ?thesis using Some Cons.IH[OF Cons.prems, of w] Cons.prems by (auto simp: Let_def)
    next
      case True
      let ?d = "changeDescOf (map fst updates)"
      have eq: "updateFrontmatter_prompts split h ups (f # files) w =
                (case promptForFrontmatterChange_with split h f ?d w of
                   None \<Rightarrow> None
                 | Some (result, w1) \<Rightarrow>
                     if result = Cancel then Some (True, w1)
                     else updateFrontmatter_prompts split h ups files w1)"
        if "map fst ups = map fst updates" for ups
        using Some True that by (simp add: Let_def)
      show ?thesis
      proof (cases "promptForFrontmatterChange_with split h f ?d w")
        case None
        then show ?thesis using eq[of updates2] eq[of updates] Cons.prems by simp
      next
        case (Some r)
        obtain result u where r: "r = (result, u)" by (cases r)
        show ?thesis
          using eq[of updates2] eq[of updates] Cons.prems Some r Cons.IH[OF Cons.prems, of u] by simp
      qed
    qed
  qed
qed

lemma updateFrontmatter_knot:
  "updateFrontmatter n h cfg = updateFrontmatter_with (splitInstance n h cfg) h cfg"
  by (cases n) (simp_all add: splitInstance_def)

text \<open>
  Claim C5. Let prompting on recurrence edits be enabled. For \<open>updateFrontmatter\<close>: let its
  prompting loop have passed the files \<open>pre\<close> of the batch, whatever was answered on their
  prompts (apply to series, or split with all that a split does), and have reached the
  state \<open>w1\<close>; and let the user's answer to the next prompt be cancel. Then the call on
  the batch \<open>pre @ post\<close> returns, and if it raised that prompt it returns the count 0 with
  the vault as it was in \<open>w1\<close>; moreover the outcome is the same for every other choice
  of the values to be written, so the requested values reach no file. For \<open>addTag\<close> and
  \<open>removeTag\<close>, which prompt at most once: if the answer to the next prompt is cancel,
  the call returns, and if it raised the prompt it returns 0 and leaves the vault as it was.
\<close>

theorem cancel_is_inert:
  assumes gate: "enableRecurrence cfg \<and> promptOnRecurrenceEdit cfg"
  shows "(\<forall>pre post w1.
            updateFrontmatter_prompts (splitInstance n h cfg) h updates pre w = Some (False, w1) \<and>
            user_answer h (length (shown w1)) = Cancel \<longrightarrow>
            (\<exists>c w'. updateFrontmatter n h cfg (pre @ post) updates w = Some (c, w') \<and>
               (length (shown w1) < length (shown w') \<longrightarrow>
                  c = 0 \<and> vault w' = vault w1 \<and>
                  (\<forall>updates2. map fst updates2 = map fst updates \<longrightarrow>
                     updateFrontmatter n h cfg (pre @ post) updates2 w = Some (0, w'))))) \<and>
         (user_answer h (length (shown w)) = Cancel \<longrightarrow>
            (\<exists>c w'. addTag n h cfg files tag key w = Some (c, w') \<and>
               (length (shown w) < length (shown w') \<longrightarrow> c = 0 \<and> vault w' = vault w)) \<and>
            (\<exists>c w'. removeTag n h cfg files tag key w = Some (c, w') \<and>
               (length (shown w) < length (shown w') \<longrightarrow> c = 0 \<and> vault w' = vault w)))"
proof (intro conjI allI impI)
  fix pre post w1
  assume a: "updateFrontmatter_prompts (splitInstance n h cfg) h updates pre w = Some (False, w1) \<and>
             user_answer h (length (shown w1)) = Cancel"
  let ?split = "splitInstance n h cfg"
  let ?cb = "\<lambda>fmatter (file::tfile). applyUpdates updates fmatter"
  have before: "\<forall>i<(0::nat). user_answer h (length (shown w1) + i) = UpdateAll" by simp
  have cancel: "user_answer h (length (shown w1) + 0) = Cancel" using a by simp
  from updateFrontmatter_prompts_cancel[OF before cancel, of ?split updates post]
  obtain b u where u: "updateFrontmatter_prompts ?split h updates post w1 = Some (b, u)"
      "vault u = vault w1"
      "if b then length (shown u) = length (shown w1) + 0 + 1
       else length (shown u) \<le> length (shown w1) + 0"
    by blast
  have whole: "updateFrontmatter_prompts ?split h updates (pre @ post) w = Some (b, u)"
    using a u(1) by (simp add: updateFrontmatter_prompts_append)
  show "\<exists>c w'. updateFrontmatter n h cfg (pre @ post) updates w = Some (c, w') \<and>
               (length (shown w1) < length (shown w') \<longrightarrow>
                  c = 0 \<and> vault w' = vault w1 \<and>
                  (\<forall>updates2. map fst updates2 = map fst updates \<longrightarrow>
                     updateFrontmatter n h cfg (pre @ post) updates2 w = Some (0, w')))"
  proof (cases b)
    case True
    have r: "updateFrontmatter n h cfg (pre @ post) ups w = Some (0, u)"
      if "map fst ups = map fst updates" for ups
      using gate whole True updateFrontmatter_prompts_keys[OF that, of ?split h "pre @ post" w]
      by (simp add: updateFrontmatter_knot updateFrontmatter_with_def)
    show ?thesis
      by (rule exI[of _ 0], rule exI[of _ u]) (use r u(2) in simp)
  next
    case False
    obtain c w' where r: "applyToFiles h (pre @ post) ?cb u = (c, w')"
      by (cases "applyToFiles h (pre @ post) ?cb u")
    have "shown w' = shown u"
      using r applyToFiles_loop_fields[of h "pre @ post" ?cb 0 u] by (simp add: applyToFiles_def)
    then have "\<not> length (shown w1) < length (shown w')" using u(3) False by simp
    moreover have "updateFrontmatter n h cfg (pre @ post) updates w = Some (c, w')"
      using gate whole False r by (simp add: updateFrontmatter_knot updateFrontmatter_with_def)
    ultimately show ?thesis by blast
  qed
next
  assume c: "user_answer h (length (shown w)) = Cancel"
  have before: "\<forall>i<(0::nat). user_answer h (length (shown w) + i) = UpdateAll" by simp
  have cancel: "user_answer h (length (shown w) + 0) = Cancel" using c by simp
  have "\<exists>c w'. addTag n h cfg files tag key w = Some (c, w') \<and>
            (length (shown w) + 0 < length (shown w') \<longrightarrow> c = 0 \<and> vault w' = vault w)"
    unfolding addTag_def addTag_with_def
    by (rule bulk_cancel) (rule tag_prompts_cancel[OF before cancel])
  then show "\<exists>c w'. addTag n h cfg files tag key w = Some (c, w') \<and>
            (length (shown w) < length (shown w') \<longrightarrow> c = 0 \<and> vault w' = vault w)" by simp
next
  assume c: "user_answer h (length (shown w)) = Cancel"
  have before: "\<forall>i<(0::nat). user_answer h (length (shown w) + i) = UpdateAll" by simp
  have cancel: "user_answer h (length (shown w) + 0) = Cancel" using c by simp
  have "\<exists>c w'. removeTag n h cfg files tag key w = Some (c, w') \<and>
            (length (shown w) + 0 < length (shown w') \<longrightarrow> c = 0 \<and> vault w' = vault w)"
    unfolding removeTag_def removeTag_with_def
    by (rule bulk_cancel) (rule tag_prompts_cancel[OF before cancel])
  then show "\<exists>c w'. removeTag n h cfg files tag key w = Some (c, w') \<and>
            (length (shown w) < length (shown w') \<longrightarrow> c = 0 \<and> vault w' = vault w)" by simp
qed

text \<open>
  C5 at the example: a priority change on two recurring notes, where the user splits the
  first (its successor is created and its rule removed) and cancels on the second; the
  second note is untouched, the count is 0, and asking for another priority gives the same
  state. Then two tag edits cancelled at their only prompt.
\<close>

theorem cancel_is_inert_witness:
  "enableRecurrence cfg0 \<and> promptOnRecurrenceEdit cfg0 \<and>
   (\<exists>w1 w'.
      updateFrontmatter_prompts (splitInstance 1 hostSplit cfg0) hostSplit
          [(''priority'', JStr ''high'')] [file0] worldTwo = Some (False, w1) \<and>
      user_answer hostSplit 0 = Split \<and>
      user_answer hostSplit (length (shown w1)) = Cancel \<and>
      updateFrontmatter 1 hostSplit cfg0 ([file0] @ [fileB]) [(''priority'', JStr ''high'')] worldTwo
        = Some (0, w') \<and>
      length (shown w1) < length (shown w') \<and> vault w' = vault w1 \<and>
      updateFrontmatter 1 hostSplit cfg0 ([file0] @ [fileB]) [(''priority'', JStr ''low'')] worldTwo
        = Some (0, w') \<and>
      vault w' (path fileB) = Some note0 \<and>
      vault w' (path file0) = Some (clearedNote note0) \<and>
      vault w' ''Tasks/Water plants 2024-01-08.md'' \<noteq> None) \<and>
   user_answer host0 (length (shown world0)) = Cancel \<and>
   (\<exists>c w'. addTag 1 host0 cfg0 [file0] ''garden'' ''tags'' world0 = Some (c, w') \<and>
           length (shown world0) < length (shown w') \<and> c = 0 \<and> vault w' = vault world0) \<and>
   (\<exists>c w'. removeTag 1 host0 cfg0 [file0] ''garden'' ''tags'' world0 = Some (c, w') \<and>
           length (shown world0) < length (shown w') \<and> c = 0 \<and> vault w' = vault world0)"
proof -
  let ?ups = "[(''priority'', JStr ''high'')]"
  let ?P = "updateFrontmatter_prompts (splitInstance 1 hostSplit cfg0) hostSplit ?ups [file0] worldTwo"
  let ?R = "updateFrontmatter 1 hostSplit cfg0 ([file0] @ [fileB]) ?ups worldTwo"
  have gate: "enableRecurrence cfg0 \<and> promptOnRecurrenceEdit cfg0" by (simp add: cfg0_def)
  have evP: "?P \<noteq> None" "\<not> fst (the ?P)" "length (shown (snd (the ?P))) = 1"
    "vault (snd (the ?P)) (path fileB) = Some note0"
    "vault (snd (the ?P)) (path file0) = Some (clearedNote note0)"
    "vault (snd (the ?P)) ''Tasks/Water plants 2024-01-08.md'' \<noteq> None"
    by (simp_all add: ex_defs ex_run_defs clearedNote_def)
  have evR: "?R \<noteq> None" "length (shown (snd (the ?R))) = 2"
    by (simp_all add: ex_defs ex_run_defs)
  let ?w1 = "snd (the ?P)"
  have pass: "?P = Some (False, ?w1)" using evP(1,2) by (cases ?P) auto
  have split0: "user_answer hostSplit 0 = Split" by (simp add: hostSplit_def host0_def)
  have cancel1: "user_answer hostSplit (length (shown ?w1)) = Cancel"
    using evP(3) by (simp add: hostSplit_def host0_def)
  note t = cancel_is_inert[OF gate, where n = 1 and h = hostSplit and updates = ?ups
             and w = worldTwo]
  note t0 = cancel_is_inert[OF gate, where n = 1 and h = host0 and w = world0
             and files = "[file0]" and tag = "''garden''" and key = "''tags''"]
  from t[THEN conjunct1, rule_format, of "[file0]" ?w1 "[fileB]"] pass cancel1
  obtain c w' where r: "?R = Some (c, w')"
    "length (shown ?w1) < length (shown w') \<longrightarrow>
       c = 0 \<and> vault w' = vault ?w1 \<and>
       (\<forall>updates2. map fst updates2 = map fst ?ups \<longrightarrow>
          updateFrontmatter 1 hostSplit cfg0 ([file0] @ [fileB]) updates2 worldTwo = Some (0, w'))"
    by blast
  have lt: "length (shown ?w1) < length (shown w')" using evP(3) evR(2) r(1) by simp
  with r(2) have c0: "c = 0" and v: "vault w' = vault ?w1"
    and ind: "updateFrontmatter 1 hostSplit cfg0 ([file0] @ [fileB]) [(''priority'', JStr ''low'')] worldTwo
                = Some (0, w')"
    by simp_all
  have one: "\<exists>w1 w'.
      updateFrontmatter_prompts (splitInstance 1 hostSplit cfg0) hostSplit ?ups [file0] worldTwo
        = Some (False, w1) \<and>
      user_answer hostSplit 0 = Split \<and>
      user_answer hostSplit (length (shown w1)) = Cancel \<and>
      ?R = Some (0, w') \<and>
      length (shown w1) < length (shown w') \<and> vault w' = vault w1 \<and>
      updateFrontmatter 1 hostSplit cfg0 ([file0] @ [fileB]) [(''priority'', JStr ''low'')] worldTwo
        = Some (0, w') \<and>
      vault w' (path fileB) = Some note0 \<and>
      vault w' (path file0) = Some (clearedNote note0) \<and>
      vault w' ''Tasks/Water plants 2024-01-08.md'' \<noteq> None"
    apply (rule exI[of _ ?w1], rule exI[of _ w'])
    using pass split0 cancel1 r(1) c0 lt v ind evP(4,5,6) by simp
  have cancel0: "user_answer host0 (length (shown world0)) = Cancel" by (simp add: host0_def)
  have e2: "length (shown world0)
              < length (shown (snd (the (addTag 1 host0 cfg0 [file0] ''garden'' ''tags'' world0))))"
    by (simp add: ex_defs addTag_def addTag_with_def hasRule_def truthy_prop_def
          promptForFrontmatterChange_with_def wasRecentlyModified_def promptUser_def Let_def)
  have e3: "length (shown world0)
              < length (shown (snd (the (removeTag 1 host0 cfg0 [file0] ''garden'' ''tags'' world0))))"
    by (simp add: ex_defs removeTag_def removeTag_with_def hasRule_def truthy_prop_def
          promptForFrontmatterChange_with_def wasRecentlyModified_def promptUser_def Let_def)
  from t0[THEN conjunct2] cancel0 e2
  have b: "\<exists>c w'. addTag 1 host0 cfg0 [file0] ''garden'' ''tags'' world0 = Some (c, w') \<and>
           length (shown world0) < length (shown w') \<and> c = 0 \<and> vault w' = vault world0"
    by fastforce
  from t0[THEN conjunct2] cancel0 e3
  have c: "\<exists>c w'. removeTag 1 host0 cfg0 [file0] ''garden'' ''tags'' world0 = Some (c, w') \<and>
           length (shown world0) < length (shown w') \<and> c = 0 \<and> vault w' = vault world0"
    by fastforce
  show ?thesis using gate one cancel0 b c by blast
qed

section \<open>Bulk edits mark their files\<close>

lemma applyToFiles_loop_keeps_mark:
  "modifiedFiles w p = Some (clock w) \<Longrightarrow>
   modifiedFiles (snd (applyToFiles_loop h files cb c w)) p = Some (clock w)"
proof (induction files arbitrary: c w)
  case Nil
  then show ?case by simp
next
  case (Cons f files)
  show ?case
  proof (cases "toLowerCase (extension f) = ''md''")
    case False
    then show ?thesis using Cons by simp
  next
    case True
    let ?w1 = "markFileAsModified (path f) w"
    have m1: "modifiedFiles ?w1 p = Some (clock ?w1)" "clock ?w1 = clock w"
      using Cons.prems by (simp_all add: markFileAsModified_def)
    show ?thesis
    proof (cases "processFrontMatter h (path f) (\<lambda>fm. cb fm f) ?w1")
      case (Inl e)
      let ?w2 = "logger_error (''[TPS GCM] Failed to update '' @ path f @ '':'') ?w1"
      have "modifiedFiles ?w2 p = Some (clock ?w2)" using m1 by simp
      from Cons.IH[OF this] show ?thesis using True Inl m1 by simp
    next
      case (Inr w2)
      then have "modifiedFiles w2 p = Some (clock w2)" "clock w2 = clock w"
        using m1 by (auto elim!: processFrontMatter_Inr)
      from Cons.IH[OF this(1)] this(2) show ?thesis using True Inr by simp
    qed
  qed
qed

lemma applyToFiles_loop_marks:
  "f \<in> set files \<Longrightarrow> toLowerCase (extension f) = ''md'' \<Longrightarrow>
   modifiedFiles (snd (applyToFiles_loop h files cb c w)) (path f) = Some (clock w)"
proof (induction files arbitrary: c w)
  case Nil
  then show ?case by simp
next
  case (Cons g files)
  let ?w1 = "markFileAsModified (path g) w"
  show ?case
  proof (cases "toLowerCase (extension g) = ''md''")
    case False
    then have "f \<in> set files" using Cons.prems by auto
    from Cons.IH[OF this Cons.prems(2)] show ?thesis using False by simp
  next
    case True
    have later: "modifiedFiles (snd (applyToFiles_loop h files cb c' u)) (path f) = Some (clock w)"
      if u: "modifiedFiles u = modifiedFiles ?w1" "clock u = clock w" for u c'
    proof (cases "g = f")
      case True
      then have "modifiedFiles u (path f) = Some (clock u)" using u by (simp add: markFileAsModified_def)
      from applyToFiles_loop_keeps_mark[OF this] u(2) show ?thesis by simp
    next
      case False
      then have "f \<in> set files" using Cons.prems by auto
      from Cons.IH[OF this Cons.prems(2), of c' u] u(2) show ?thesis by simp
    qed
    show ?thesis
    proof (cases "processFrontMatter h (path g) (\<lambda>fm. cb fm g) ?w1")
      case (Inl e)
      then show ?thesis using True later[of "logger_error (''[TPS GCM] Failed to update '' @ path g @ '':'') ?w1" c]
        by (simp add: markFileAsModified_def)
    next
      case (Inr w2)
      then have "modifiedFiles w2 = modifiedFiles ?w1" "clock w2 = clock w"
        by (auto elim!: processFrontMatter_Inr simp: markFileAsModified_def)
      from later[OF this] show ?thesis using True Inr by simp
    qed
  qed
qed

lemma applyToFiles_loop_failing:
  "fails h OpPatch p \<Longrightarrow> vault (snd (applyToFiles_loop h files cb c w)) p = vault w p"
proof (induction files arbitrary: c w)
  case Nil
  then show ?case by simp
next
  case (Cons g files)
  let ?w1 = "markFileAsModified (path g) w"
  show ?case
  proof (cases "toLowerCase (extension g) = ''md''")
    case False
    then show ?thesis using Cons by simp
  next
    case True
    show ?thesis
    proof (cases "processFrontMatter h (path g) (\<lambda>fm. cb fm g) ?w1")
      case (Inl e)
      then show ?thesis using True Cons.IH[OF Cons.prems] by (simp add: markFileAsModified_def)
    next
      case (Inr w2)
      then have "vault w2 p = vault w p" using Cons.prems
        by (auto elim!: processFrontMatter_Inr simp: markFileAsModified_def)
      then show ?thesis using True Inr Cons.IH[OF Cons.prems, of "c + 1" w2] by simp
    qed
  qed
qed

lemma recently_marked:
  assumes "modifiedFiles u p = Some T" "T \<noteq> 0" "clock u \<le> T + sessionDuration u"
  shows "wasRecentlyModified p u = (True, u)"
  using assms by (simp add: wasRecentlyModified_def Let_def)

text \<open>
  Claim C10. After \<open>applyToFiles\<close>, every markdown file of the batch is marked in the
  tracker with the time of the call, also a file whose patch failed (and which is
  therefore unchanged in the vault). Until the window has passed, the lookup returns
  \<open>true\<close> for it, the focus and the modification handler return without a prompt, and
  \<open>promptForFrontmatterChange\<close> lets the change through without a prompt. The time of the
  call is a reading of \<open>Date.now()\<close> other than 0.
\<close>

theorem bulk_edit_marks_every_markdown_file:
  assumes member: "file \<in> set files" and md: "toLowerCase (extension file) = ''md''"
    and now: "clock w \<noteq> 0"
  shows "modifiedFiles (snd (applyToFiles h files callback w)) (path file) = Some (clock w) \<and>
         (fails h OpPatch (path file) \<longrightarrow>
            vault (snd (applyToFiles h files callback w)) (path file) = vault w (path file)) \<and>
         (\<forall>t. t \<le> clock w + sessionDuration w \<longrightarrow>
            wasRecentlyModified (path file) ((snd (applyToFiles h files callback w))\<lparr>clock := t\<rparr>) =
              (True, (snd (applyToFiles h files callback w))\<lparr>clock := t\<rparr>) \<and>
            handleFileFocus n h cfg file ((snd (applyToFiles h files callback w))\<lparr>clock := t\<rparr>) =
              Some ((snd (applyToFiles h files callback w))\<lparr>clock := t\<rparr>) \<and>
            handleFileModification n h cfg file ((snd (applyToFiles h files callback w))\<lparr>clock := t\<rparr>) =
              Some ((snd (applyToFiles h files callback w))\<lparr>clock := t\<rparr>) \<and>
            promptForFrontmatterChange n h cfg file d ((snd (applyToFiles h files callback w))\<lparr>clock := t\<rparr>) =
              Some (UpdateAll, (snd (applyToFiles h files callback w))\<lparr>clock := t\<rparr>))"
proof -
  let ?w' = "snd (applyToFiles h files callback w)"
  have mark: "modifiedFiles ?w' (path file) = Some (clock w)"
    unfolding applyToFiles_def using member md by (rule applyToFiles_loop_marks)
  have dur: "sessionDuration ?w' = sessionDuration w"
    by (simp add: applyToFiles_def applyToFiles_loop_fields)
  have failing: "vault ?w' (path file) = vault w (path file)" if "fails h OpPatch (path file)"
    unfolding applyToFiles_def using that by (rule applyToFiles_loop_failing)
  have recent: "wasRecentlyModified (path file) (?w'\<lparr>clock := t\<rparr>) = (True, ?w'\<lparr>clock := t\<rparr>)"
    if "t \<le> clock w + sessionDuration w" for t
    using mark now that dur by (intro recently_marked) simp_all
  show ?thesis
    using mark failing recent
    by (simp add: handleFileFocus_def handleFileFocus_with_def handleFileModification_def
          handleFileModification_with_def promptForFrontmatterChange_def
          promptForFrontmatterChange_with_def)
qed

text \<open>
  C10 at the example, with a host on which the patch of the weekly task fails.
\<close>

theorem bulk_edit_marks_every_markdown_file_witness:
  "file0 \<in> set [file0] \<and> toLowerCase (extension file0) = ''md'' \<and> clock world0 \<noteq> 0 \<and>
   fails hostFailing OpPatch (path file0) \<and>
   fst (applyToFiles hostFailing [file0] (\<lambda>fmatter f. fmatter(''priority'' \<mapsto> JStr ''high'')) world0) = 0 \<and>
   modifiedFiles (snd (applyToFiles hostFailing [file0]
       (\<lambda>fmatter f. fmatter(''priority'' \<mapsto> JStr ''high'')) world0)) (path file0) = Some (clock world0) \<and>
   vault (snd (applyToFiles hostFailing [file0]
       (\<lambda>fmatter f. fmatter(''priority'' \<mapsto> JStr ''high'')) world0)) (path file0) = vault world0 (path file0) \<and>
   1704100300000 \<le> clock world0 + sessionDuration world0 \<and>
   fst (wasRecentlyModified (path file0)
      ((snd (applyToFiles hostFailing [file0]
          (\<lambda>fmatter f. fmatter(''priority'' \<mapsto> JStr ''high'')) world0))\<lparr>clock := 1704100300000\<rparr>)) \<and>
   handleFileFocus 1 hostFailing cfg0 file0
      ((snd (applyToFiles hostFailing [file0]
          (\<lambda>fmatter f. fmatter(''priority'' \<mapsto> JStr ''high'')) world0))\<lparr>clock := 1704100300000\<rparr>)
     = Some ((snd (applyToFiles hostFailing [file0]
          (\<lambda>fmatter f. fmatter(''priority'' \<mapsto> JStr ''high'')) world0))\<lparr>clock := 1704100300000\<rparr>)"
proof -
  let ?cb = "\<lambda>(fmatter::fm) (f::tfile). fmatter(''priority'' \<mapsto> JStr ''high'')"
  have m: "file0 \<in> set [file0]" by simp
  have md: "toLowerCase (extension file0) = ''md''" by (simp add: file0_def toLowerCase_def)
  have nz: "clock world0 \<noteq> 0" by (simp add: world0_def)
  have fl: "fails hostFailing OpPatch (path file0)" by (simp add: hostFailing_def file0_def)
  have cnt: "fst (applyToFiles hostFailing [file0] ?cb world0) = 0"
    by (simp add: applyToFiles_def processFrontMatter_def markFileAsModified_def
          ex_defs toLowerCase_def Let_def)
  have tm: "1704100300000 \<le> clock world0 + sessionDuration world0" by (simp add: world0_def)
  note t = bulk_edit_marks_every_markdown_file[OF m md nz, of hostFailing ?cb 1 cfg0 "''updating''"]
  show ?thesis using t m md nz fl cnt tm by simp
qed

section \<open>Splitting an instance\<close>

lemma settled_cong:
  "vault u' = vault u \<Longrightarrow> cache u' = cache u \<Longrightarrow> clock u' = clock u \<Longrightarrow>
   settled file fmS tgt c0 u \<Longrightarrow> settled file fmS tgt c0 u'"
  by (simp add: settled_def)

lemma createNext_catch_fields [simp]:
  "vault (snd (createNext_catch w)) = vault w" "cache (snd (createNext_catch w)) = cache w"
  "clock (snd (createNext_catch w)) = clock w" "shown (snd (createNext_catch w)) = shown w"
  "modifiedFiles (snd (createNext_catch w)) = modifiedFiles w"
  by (simp_all add: createNext_catch_def)

lemma createNext_clear_settled:
  assumes "settled file fmS tgt c0 u"
  shows "vault (snd (createNext_clear h file msg u)) = vault u"
    and "settled file fmS tgt c0 (snd (createNext_clear h file msg u))"
    and "shown (snd (createNext_clear h file msg u)) = shown u"
proof -
  let ?r = "createNext_clear h file msg u"
  from assms obtain m where m: "vault u (path file) = Some m"
    "frontmatter m ''recurrenceRule'' = None" "frontmatter m ''recurrence'' = None"
    by (auto simp: settled_def)
  have "vault (snd ?r) = vault u \<and> settled file fmS tgt c0 (snd ?r) \<and> shown (snd ?r) = shown u"
  proof (cases "clearRecurrenceRule h file (logger_warn msg u)")
    case (Inl e)
    then have "snd ?r = snd (createNext_catch (logger_warn msg u))" by (simp add: createNext_clear_def)
    then show ?thesis using assms by (auto intro: settled_cong[of _ u])
  next
    case (Inr w3)
    then have r: "snd ?r = w3" by (simp add: createNext_clear_def)
    from Inr obtain n where n: "vault (logger_warn msg u) (path file) = Some n"
      and v: "vault w3 = (vault (logger_warn msg u))(path file \<mapsto>
               n\<lparr>frontmatter := (frontmatter n)(''recurrenceRule'' := None, ''recurrence'' := None)\<rparr>)"
      and c: "cache w3 = (if autoIndex h
               then (cache (logger_warn msg u))(path file \<mapsto>
                      (frontmatter n)(''recurrenceRule'' := None, ''recurrence'' := None))
               else cache (logger_warn msg u))"
      and k: "clock w3 = clock (logger_warn msg u)" and s: "shown w3 = shown (logger_warn msg u)"
      unfolding clearRecurrenceRule_def by (rule processFrontMatter_Inr)
    have nm: "n = m" using n m(1) by simp
    have v': "vault w3 = vault u" using v m nm by (simp add: clearedNote_idem map_upd_triv)
    have "settled file fmS tgt c0 w3"
      using assms v' c k by (auto simp: settled_def)
    then show ?thesis using r v' s by simp
  qed
  then show "vault (snd ?r) = vault u" and "settled file fmS tgt c0 (snd ?r)"
    and "shown (snd ?r) = shown u" by auto
qed

lemma createNext_settled:
  assumes st: "settled file fmS tgt c0 u"
    and cached: "cache u (path file) = Some fm'"
    and rule: "ruleOf fmS = Some rule" "truthy rule"
    and nxt: "getNextOccurrence_try h rule (fmS ''scheduled'') u = Inr (Some d)"
    and tgt: "tgt = successorPath h file d"
  shows "vault (snd (createNextRecurrenceInstance h cfg file fm' carry u)) = vault u"
    and "settled file fmS tgt c0 (snd (createNextRecurrenceInstance h cfg file fm' carry u))"
    and "shown (snd (createNextRecurrenceInstance h cfg file fm' carry u)) = shown u"
proof -
  let ?r = "createNextRecurrenceInstance h cfg file fm' carry u"
  have "vault (snd ?r) = vault u \<and> settled file fmS tgt c0 (snd ?r) \<and> shown (snd ?r) = shown u"
  proof (cases "hasRule fm'")
    case False
    then show ?thesis using st by (simp add: createNext_no_rule)
  next
    case True
    then have eq: "fm' = fmS" using st cached by (simp add: settled_def)
    have g: "getNextOccurrence h rule (fmS ''scheduled'') u = (Some d, u)"
      using nxt by (rule getNextOccurrence_Inr)
    have ex: "vault u (successorPath h file d) \<noteq> None" using st tgt by (simp add: settled_def)
    show ?thesis
    proof (cases "fails h OpExists (successorPath h file d)")
      case True
      then have "?r = createNext_catch u"
        using g by (simp add: eq createNext_unfold[OF rule] adapter_exists_def)
      then show ?thesis using st by (auto intro: settled_cong[of _ u])
    next
      case False
      then have "?r = createNext_clear h file
         (''[TPS GCM] Next recurrence already exists, skipping creation: '' @ successorPath h file d) u"
        using g ex by (simp add: eq createNext_unfold[OF rule] adapter_exists_def)
      then show ?thesis using createNext_clear_settled[OF st] by simp
    qed
  qed
  then show "vault (snd ?r) = vault u" and "settled file fmS tgt c0 (snd ?r)"
    and "shown (snd ?r) = shown u" by auto
qed

lemma applyUpdates_nulls:
  "applyUpdates [(''recurrenceRule'', JNull), (''recurrence'', JNull)] fmatter =
   fmatter(''recurrenceRule'' := None, ''recurrence'' := None)"
  by simp

lemma applyToFiles_nulls_settled:
  assumes m: "vault u (path file) = Some m"
    "frontmatter m ''recurrenceRule'' = None" "frontmatter m ''recurrence'' = None"
  shows "vault (snd (applyToFiles h [file]
            (\<lambda>fmatter f. applyUpdates [(''recurrenceRule'', JNull), (''recurrence'', JNull)] fmatter) u))
         = vault u"
proof -
  let ?cb = "\<lambda>fmatter (f::tfile). applyUpdates [(''recurrenceRule'', JNull), (''recurrence'', JNull)] fmatter"
  let ?w1 = "markFileAsModified (path file) u"
  show ?thesis
  proof (cases "toLowerCase (extension file) = ''md''")
    case False
    then show ?thesis by (simp add: applyToFiles_def)
  next
    case True
    show ?thesis
    proof (cases "processFrontMatter h (path file) (\<lambda>fm. ?cb fm file) ?w1")
      case (Inl e)
      then show ?thesis using True by (simp add: applyToFiles_def markFileAsModified_def)
    next
      case (Inr w2)
      then obtain n where n: "vault ?w1 (path file) = Some n"
        and v: "vault w2 = (vault ?w1)(path file \<mapsto> n\<lparr>frontmatter := ?cb (frontmatter n) file\<rparr>)"
        by (rule processFrontMatter_Inr)
      have nm: "n = m" using n m(1) by (simp add: markFileAsModified_def)
      have "vault w2 = vault u" using v m nm
        by (simp add: markFileAsModified_def clearedNote_idem map_upd_triv)
      then show ?thesis using True Inr by (simp add: applyToFiles_def)
    qed
  qed
qed

lemma prompt_settled:
  assumes pres: "\<And>u u'. settled file fmS tgt c0 u \<Longrightarrow> S file u = Some u' \<Longrightarrow> vault u' = vault u"
    and st: "settled file fmS tgt c0 u"
    and res: "promptForFrontmatterChange_with S h file dsc u = Some (r, u')"
  shows "vault u' = vault u"
proof (cases "fst (wasRecentlyModified (path file) u)")
  case True
  then show ?thesis using res by (auto simp: promptForFrontmatterChange_recent)
next
  case False
  let ?w2 = "snd (promptUser h dsc file (snd (wasRecentlyModified (path file) u)))"
  have st2: "settled file fmS tgt c0 ?w2" using st by (auto intro: settled_cong[of _ u])
  have v2: "vault ?w2 = vault u" by simp
  show ?thesis
  proof (cases "user_answer h (length (shown u))")
    case UpdateAll
    then show ?thesis using res False
      by (auto simp: promptForFrontmatterChange_with_def split_beta Let_def)
  next
    case Cancel
    then show ?thesis using res False
      by (auto simp: promptForFrontmatterChange_with_def split_beta Let_def)
  next
    case Split
    then obtain w3 where w3: "S file ?w2 = Some w3" and u': "u' = markAsModified (path file) w3"
      using res False
      by (auto simp: promptForFrontmatterChange_with_def split_beta Let_def split: option.splits)
    from pres[OF st2 w3] show ?thesis using u' v2 by simp
  qed
qed

lemma updateFrontmatter_with_settled:
  assumes pres: "\<And>u u'. settled file fmS tgt c0 u \<Longrightarrow> S file u = Some u' \<Longrightarrow> vault u' = vault u"
    and st: "settled file fmS tgt c0 u"
    and res: "updateFrontmatter_with S h cfg [file]
                [(''recurrenceRule'', JNull), (''recurrence'', JNull)] u = Some (c, u')"
  shows "vault u' = vault u"
proof -
  let ?nulls = "[(''recurrenceRule'', JNull), (''recurrence'', JNull)]"
  let ?cb = "\<lambda>fmatter (f::tfile). applyUpdates ?nulls fmatter"
  from st obtain m where m: "vault u (path file) = Some m"
    "frontmatter m ''recurrenceRule'' = None" "frontmatter m ''recurrence'' = None"
    by (auto simp: settled_def)
  have apply_ok: "vault (snd (applyToFiles h [file] ?cb w1)) = vault u" if "vault w1 = vault u" for w1
  proof -
    have "vault (snd (applyToFiles h [file] ?cb w1)) = vault w1"
      by (rule applyToFiles_nulls_settled[OF _ m(2,3)]) (simp add: that m(1))
    then show ?thesis using that by simp
  qed
  show ?thesis
  proof (cases "enableRecurrence cfg \<and> promptOnRecurrenceEdit cfg")
    case False
    then have "u' = snd (applyToFiles h [file] ?cb u)" using res
      by (auto simp: updateFrontmatter_with_def)
    then show ?thesis using apply_ok[of u] by simp
  next
    case True
    then obtain b w1 where p: "updateFrontmatter_prompts S h ?nulls [file] u = Some (b, w1)"
      and fin: "(if b then Some (0, w1) else Some (applyToFiles h [file] ?cb w1)) = Some (c, u')"
      using res by (auto simp: updateFrontmatter_with_def split: option.splits)
    have v1: "vault w1 = vault u"
    proof (cases "\<exists>fmatter. cache u (path file) = Some fmatter \<and> hasRule fmatter \<and> \<not> statusDone fmatter")
      case False
      then have "updateFrontmatter_prompts S h ?nulls [file] u = Some (False, u)"
        by (auto split: option.splits)
      then show ?thesis using p by simp
    next
      case True
      then obtain r w2 where r: "promptForFrontmatterChange_with S h file (changeDescOf (map fst ?nulls)) u = Some (r, w2)"
        and w1: "w1 = w2"
        using p by (auto simp: Let_def split: option.splits if_splits)
      have "vault w2 = vault u" using pres st r by (rule prompt_settled)
      then show ?thesis using w1 by simp
    qed
    show ?thesis
    proof (cases b)
      case True
      then show ?thesis using fin v1 by simp
    next
      case False
      then have "u' = snd (applyToFiles h [file] ?cb w1)" using fin by auto
      then show ?thesis using apply_ok[of w1] v1 by simp
    qed
  qed
qed

lemma splitInstance_with_settled:
  assumes rule: "ruleOf fmS = Some rule" "truthy rule"
    and nxt: "\<And>u. clock u = c0 \<Longrightarrow> getNextOccurrence_try h rule (fmS ''scheduled'') u = Inr (Some d)"
    and tgt: "tgt = successorPath h file d"
    and upd: "\<And>u c u'. settled file fmS tgt c0 u \<Longrightarrow>
                U [file] [(''recurrenceRule'', JNull), (''recurrence'', JNull)] u = Some (c, u') \<Longrightarrow>
                vault u' = vault u"
    and st: "settled file fmS tgt c0 u"
    and res: "splitInstance_with U h cfg file u = Some u'"
  shows "vault u' = vault u"
proof (cases "cache u (path file)")
  case None
  then show ?thesis using res by (simp add: splitInstance_with_def)
next
  case (Some fm')
  let ?r = "createNextRecurrenceInstance h cfg file fm' None u"
  have c0: "clock u = c0" using st by (simp add: settled_def)
  note cn = createNext_settled[OF st Some rule nxt[OF c0] tgt, of cfg None]
  from res Some obtain c u2 where
    u2: "U [file] [(''recurrenceRule'', JNull), (''recurrence'', JNull)] (snd ?r) = Some (c, u2)"
    and u': "u' = Notice ''Split recurring event. Next instance created.'' u2"
    by (auto simp: splitInstance_with_def split_beta split: option.splits)
  from upd[OF cn(2) u2] show ?thesis using u' cn(1) by simp
qed

lemma updateFrontmatter_settled:
  assumes rule: "ruleOf fmS = Some rule" "truthy rule"
    and nxt: "\<And>u. clock u = c0 \<Longrightarrow> getNextOccurrence_try h rule (fmS ''scheduled'') u = Inr (Some d)"
    and tgt: "tgt = successorPath h file d"
  shows "settled file fmS tgt c0 u \<Longrightarrow>
         updateFrontmatter k h cfg [file] [(''recurrenceRule'', JNull), (''recurrence'', JNull)] u
           = Some (c, u') \<Longrightarrow>
         vault u' = vault u"
proof (induction k arbitrary: u c u')
  case 0
  show ?case
    by (rule updateFrontmatter_with_settled[OF _ "0.prems"(1) "0.prems"(2)[unfolded updateFrontmatter.simps]])
       simp
next
  case (Suc k)
  show ?case
  proof (rule updateFrontmatter_with_settled[OF _ Suc.prems(1) Suc.prems(2)[unfolded updateFrontmatter.simps]])
    fix v v'
    assume a: "settled file fmS tgt c0 v"
      and b: "splitInstance_with (updateFrontmatter k h cfg) h cfg file v = Some v'"
    show "vault v' = vault v"
      using rule nxt tgt Suc.IH a b by (rule splitInstance_with_settled)
  qed
qed

lemma updateFrontmatter_with_returns:
  assumes S: "\<And>w2::world. user_answer h (length (shown u)) = Split \<Longrightarrow> vault w2 = vault u \<Longrightarrow>
                cache w2 = cache u \<Longrightarrow> clock w2 = clock u \<Longrightarrow>
                length (shown w2) = Suc (length (shown u)) \<Longrightarrow> \<exists>w3. S file w2 = Some w3"
  shows "\<exists>c u'. updateFrontmatter_with S h cfg [file] upd u = Some (c, u')"
proof -
  let ?d = "changeDescOf (map fst upd)"
  have prompt: "\<exists>r w1. promptForFrontmatterChange_with S h file ?d u = Some (r, w1)"
  proof (cases "fst (wasRecentlyModified (path file) u)")
    case True
    then show ?thesis by (simp add: promptForFrontmatterChange_recent)
  next
    case False
    let ?w2 = "snd (promptUser h ?d file (snd (wasRecentlyModified (path file) u)))"
    show ?thesis
    proof (cases "user_answer h (length (shown u))")
      case UpdateAll
      then show ?thesis using False
        by (simp add: promptForFrontmatterChange_with_def split_beta Let_def)
    next
      case Cancel
      then show ?thesis using False
        by (simp add: promptForFrontmatterChange_with_def split_beta Let_def)
    next
      case Split
      from S[OF Split, of ?w2] obtain w3 where "S file ?w2 = Some w3" by auto
      then show ?thesis using False Split
        by (simp add: promptForFrontmatterChange_with_def split_beta Let_def)
    qed
  qed
  have "\<exists>b w1. updateFrontmatter_prompts S h upd [file] u = Some (b, w1)"
  proof (cases "\<exists>fmatter. cache u (path file) = Some fmatter \<and> hasRule fmatter \<and> \<not> statusDone fmatter
                  \<and> ''status'' \<notin> set (map fst upd)")
    case False
    then have "updateFrontmatter_prompts S h upd [file] u = Some (False, u)"
      by (auto simp: Let_def split: option.splits)
    then show ?thesis by blast
  next
    case True
    from prompt obtain r w1 where "promptForFrontmatterChange_with S h file ?d u = Some (r, w1)"
      by blast
    then show ?thesis using True by (auto simp: Let_def)
  qed
  then obtain b w1 where "updateFrontmatter_prompts S h upd [file] u = Some (b, w1)" by blast
  then show ?thesis
    by (cases "applyToFiles h [file] (\<lambda>fmatter file. applyUpdates upd fmatter) w1";
        cases "applyToFiles h [file] (\<lambda>fmatter file. applyUpdates upd fmatter) u")
       (simp add: updateFrontmatter_with_def)
qed

lemma updateFrontmatter_returns:
  assumes rule: "ruleOf fmS = Some rule" "truthy rule"
    and nxt: "\<And>u. clock u = c0 \<Longrightarrow> getNextOccurrence_try h rule (fmS ''scheduled'') u = Inr (Some d)"
    and tgt: "tgt = successorPath h file d"
  shows "settled file fmS tgt c0 u \<Longrightarrow> user_answer h (length (shown u) + j) \<noteq> Split \<Longrightarrow>
         \<exists>c u'. updateFrontmatter j h cfg [file] [(''recurrenceRule'', JNull), (''recurrence'', JNull)] u
                  = Some (c, u')"
proof (induction j arbitrary: u)
  case 0
  show ?case
    unfolding updateFrontmatter.simps
    by (rule updateFrontmatter_with_returns) (use "0.prems" in simp)
next
  case (Suc j)
  show ?case
    unfolding updateFrontmatter.simps
  proof (rule updateFrontmatter_with_returns)
    fix w2 :: world
    assume w2: "vault w2 = vault u" "cache w2 = cache u" "clock w2 = clock u"
      "length (shown w2) = Suc (length (shown u))"
    have st2: "settled file fmS tgt c0 w2" using Suc.prems(1) w2 by (auto intro: settled_cong[of _ u])
    have c0: "clock w2 = c0" using st2 by (simp add: settled_def)
    show "\<exists>w3. splitInstance_with (updateFrontmatter j h cfg) h cfg file w2 = Some w3"
    proof (cases "cache w2 (path file)")
      case None
      then show ?thesis by (simp add: splitInstance_with_def)
    next
      case (Some fm')
      let ?r = "createNextRecurrenceInstance h cfg file fm' None w2"
      note cn = createNext_settled[OF st2 Some rule nxt[OF c0] tgt, of cfg None]
      have "user_answer h (length (shown (snd ?r)) + j) \<noteq> Split"
        using Suc.prems(2) cn(3) w2(4) by simp
      from Suc.IH[OF cn(2) this] show ?thesis using Some
        by (auto simp: splitInstance_with_def split_beta)
    qed
  qed
qed

lemma stripDateSuffix_append:
  "isDateSuffix s \<Longrightarrow> stripDateSuffix (b @ s) = b"
proof -
  assume a: "isDateSuffix s"
  then have "length s = 11" by (auto simp: isDateSuffix_def split: list.splits)
  then show ?thesis using a by (simp add: stripDateSuffix_def)
qed

text \<open>
  Claim C4, as the code has it. Let the index show a rule for the note \<open>N\<close>, let a next
  date \<open>d\<close> be computed from it, let \<open>N\<close> exist with content \<open>n\<close>, let no file exist at the
  path derived for \<open>d\<close>, and let the host operations on the two paths not fail. Then
  whenever \<open>splitInstance\<close> returns, the vault is the vault before with two changes: at
  the derived path there is a copy of \<open>n\<close> with \<open>scheduled\<close> set to the full timestamp of
  \<open>d\<close>, \<open>title\<close> to the base name without date suffix and \<open>status\<close> to the configured
  default; and \<open>N\<close> is \<open>n\<close> without the two rule fields. Every other field of \<open>N\<close>, its
  body, and every other file are as before. \<open>splitInstance\<close> returns as soon as one of
  the follow-up prompts (raised by the closing update while the index still shows the
  rule) is answered other than split. The base name loses a trailing blank and date.
\<close>

theorem split_spawns_and_strips:
  assumes cached: "cache w (path file) = Some fmatter"
    and rule: "ruleOf fmatter = Some rule" "truthy rule"
    and nxt: "fst (getNextOccurrence h rule (fmatter ''scheduled'') w) = Some d"
    and src: "vault w (path file) = Some n"
    and free: "vault w (successorPath h file d) = None"
    and io: "\<not> fails h OpExists (successorPath h file d)" "\<not> fails h OpRead (path file)"
            "\<not> fails h OpCreate (successorPath h file d)" "\<not> fails h OpResolve (successorPath h file d)"
            "\<not> fails h OpPatch (successorPath h file d)" "\<not> fails h OpPatch (path file)"
  shows "(\<forall>k w'. splitInstance k h cfg file w = Some w' \<longrightarrow>
            vault w' = (vault w)(successorPath h file d \<mapsto> successorNote h cfg file d n,
                                 path file \<mapsto> clearedNote n)) \<and>
         (\<forall>j. user_answer h (length (shown w) + j) \<noteq> Split \<longrightarrow>
            (\<exists>w'. splitInstance (Suc j) h cfg file w = Some w')) \<and>
         (\<forall>b s. isDateSuffix s \<longrightarrow> stripDateSuffix (b @ s) = b)"
proof -
  let ?tgt = "successorPath h file d"
  let ?nulls = "[(''recurrenceRule'', JNull), (''recurrence'', JNull)]"
  let ?r = "createNextRecurrenceInstance h cfg file fmatter None w"
  let ?V = "(vault w)(?tgt \<mapsto> successorNote h cfg file d n, path file \<mapsto> clearedNote n)"
  have g: "getNextOccurrence h rule (fmatter ''scheduled'') w = (Some d, w)"
    using nxt by (rule getNextOccurrence_Some)
  then have attempt0: "getNextOccurrence_try h rule (fmatter ''scheduled'') w = Inr (Some d)"
    by (auto simp: getNextOccurrence_def split: sum.splits)
  have attempt_u: "getNextOccurrence_try h rule (fmatter ''scheduled'') u = Inr (Some d)"
    if "clock u = clock w" for u
    using attempt0 getNextOccurrence_try_clock[OF that] by simp
  have r: "?r = createNext_spawn h cfg file d (stripDateSuffix (basename file))
                  (stripDateSuffix (basename file) @ '' '' @ moment_format h ''YYYY-MM-DD'' d @ ''.md'')
                  ?tgt w"
    using g free io(1) by (simp add: createNext_unfold[OF rule] adapter_exists_def)
  note sp = createNext_spawn_ok[OF src free io(2-6), of cfg d
              "stripDateSuffix (basename file) @ '' '' @ moment_format h ''YYYY-MM-DD'' d @ ''.md''"]
  have v1: "vault (snd ?r) = ?V" and c1: "clock (snd ?r) = clock w"
    and s1: "shown (snd ?r) = shown w"
    and k1: "cache (snd ?r) = (if autoIndex h
            then (cache w)(?tgt \<mapsto> frontmatter (successorNote h cfg file d n),
                           path file \<mapsto> frontmatter (clearedNote n))
            else cache w)"
    using sp unfolding r by simp_all
  have ne: "?tgt \<noteq> path file" using src free by auto
  have st1: "settled file fmatter ?tgt (clock w) (snd ?r)"
    using v1 c1 k1 cached ne
    by (auto simp: settled_def clearedNote_def)
  have part1: "vault w' = ?V" if res: "splitInstance k h cfg file w = Some w'" for k w'
  proof (cases k)
    case 0
    then show ?thesis using res by (simp add: splitInstance_def)
  next
    case (Suc k')
    from res obtain c u2 where u2: "updateFrontmatter k' h cfg [file] ?nulls (snd ?r) = Some (c, u2)"
      and w': "w' = Notice ''Split recurring event. Next instance created.'' u2"
      using cached
      by (auto simp: Suc splitInstance_def splitInstance_with_def split_beta split: option.splits)
    have "vault u2 = vault (snd ?r)"
      by (rule updateFrontmatter_settled[OF rule attempt_u refl st1 u2])
    then show ?thesis using w' v1 by simp
  qed
  have part2: "\<exists>w'. splitInstance (Suc j) h cfg file w = Some w'"
    if a: "user_answer h (length (shown w) + j) \<noteq> Split" for j
  proof -
    have "user_answer h (length (shown (snd ?r)) + j) \<noteq> Split" using a s1 by simp
    from updateFrontmatter_returns[OF rule attempt_u refl st1 this, of cfg]
    show ?thesis using cached by (auto simp: splitInstance_def splitInstance_with_def split_beta)
  qed
  show ?thesis using part1 part2 stripDateSuffix_append by blast
qed

text \<open>
  C4 at the example: splitting the weekly task creates the note of 2024-01-08.
\<close>

theorem split_spawns_and_strips_witness:
  "cache world0 (path file0) = Some fm0 \<and> ruleOf fm0 = Some (JStr ''FREQ=WEEKLY'') \<and>
   truthy (JStr ''FREQ=WEEKLY'') \<and>
   fst (getNextOccurrence host0 (JStr ''FREQ=WEEKLY'') (fm0 ''scheduled'') world0) = Some 1704672000000 \<and>
   vault world0 (path file0) = Some note0 \<and>
   vault world0 (successorPath host0 file0 1704672000000) = None \<and>
   (\<forall>op p. \<not> fails host0 op p) \<and>
   user_answer host0 (length (shown world0) + 0) \<noteq> Split \<and>
   isDateSuffix '' 2024-01-01'' \<and>
   (\<exists>w'. splitInstance (Suc 0) host0 cfg0 file0 world0 = Some w' \<and>
         vault w' = (vault world0)
           (successorPath host0 file0 1704672000000 \<mapsto> successorNote host0 cfg0 file0 1704672000000 note0,
            path file0 \<mapsto> clearedNote note0)) \<and>
   stripDateSuffix (''Water plants'' @ '' 2024-01-01'') = ''Water plants''"
proof -
  have cached: "cache world0 (path file0) = Some fm0" by (simp add: world0_def file0_def)
  have src: "vault world0 (path file0) = Some note0" by (simp add: world0_def file0_def)
  have free: "vault world0 (successorPath host0 file0 1704672000000) = None"
    by (simp add: ex_path world0_def)
  have io: "\<not> fails host0 op p" for op p by (simp add: host0_def)
  have ans: "user_answer host0 (length (shown world0) + 0) \<noteq> Split" by (simp add: host0_def)
  have suf: "isDateSuffix '' 2024-01-01''" by (simp add: isDateSuffix_def isDigit_def)
  note t = split_spawns_and_strips[OF cached ex_rule ex_next src free io io io io io io, of cfg0]
  from t ans obtain w' where w': "splitInstance (Suc 0) host0 cfg0 file0 world0 = Some w'" by blast
  with t have v: "vault w' = (vault world0)
           (successorPath host0 file0 1704672000000 \<mapsto> successorNote host0 cfg0 file0 1704672000000 note0,
            path file0 \<mapsto> clearedNote note0)" by blast
  from t suf have s: "stripDateSuffix (''Water plants'' @ '' 2024-01-01'') = ''Water plants''" by blast
  show ?thesis using cached ex_rule ex_next[of world0] src free ex_reliable ans suf w' v s by blast
qed

text \<open>
  Claim C4 as stated does not hold when a file already exists at the derived path: the
  split creates no note there, and the file found keeps its own content and status
  (here \<open>complete\<close>, not the configured default \<open>open\<close>).
\<close>

theorem split_collision_counterexample:
  "cache worldBoth (path file0) = Some fm0 \<and> hasRule fm0 \<and> \<not> statusDone fm0 \<and>
   fm0 ''scheduled'' = Some (JStr ''2024-01-01'') \<and>
   fst (getNextOccurrence host0 (JStr ''FREQ=WEEKLY'') (fm0 ''scheduled'') worldBoth) = Some 1704672000000 \<and>
   successorPath host0 file0 1704672000000 = ''Tasks/Water plants 2024-01-08.md'' \<and>
   splitInstance (Suc 0) host0 cfg0 file0 worldBoth \<noteq> None \<and>
   vault (the (splitInstance (Suc 0) host0 cfg0 file0 worldBoth)) ''Tasks/Water plants 2024-01-08.md''
     = Some noteExisting \<and>
   frontmatter noteExisting ''status'' = Some (JStr ''complete'') \<and>
   body noteExisting \<noteq> body note0 \<and>
   recurrenceDefaultStatus cfg0 = ''open''"
  by (simp add: ex_path ex_next)
     (simp add: ex_defs hasRule_def truthy_prop_def statusDone_def splitInstance_def
        splitInstance_with_def createNextRecurrenceInstance_def js_or_def getNextOccurrence_def
        getNextOccurrence_try_def stripDateSuffix_def isDateSuffix_def newFilePathOf_def
        adapter_exists_def createNext_clear_def clearRecurrenceRule_def processFrontMatter_def
        reindex_def logger_warn_def updateFrontmatter_with_def changeDescOf_def
        promptForFrontmatterChange_with_def wasRecentlyModified_def promptUser_def Notice_def Let_def)

end
